theory Spec2Isabelle
  imports Complex_Main "HOL-Library.Word" "HOL-Library.Sublist"
begin

section \<open>Strings, byte arrays and colours\<close>

text \<open>
  The widget is written against Qt. A \<open>QString\<close> is a sequence of UTF-16 code units, a
  \<open>QByteArray\<close> a sequence of bytes, a \<open>QColor\<close> is kept as the colour name the source
  passes to its constructor. \<open>qs\<close> is the conversion of an ASCII literal of the source
  into a \<open>QString\<close>.
\<close>

type_synonym QChar = "16 word"
type_synonym QString = "QChar list"
type_synonym QStringList = "QString list"
type_synonym QByteArray = "char list"
type_synonym QColor = string

definition qs :: "string \<Rightarrow> QString" where
  "qs s = map of_char s"

text \<open>
  \<open>QChar::isSpace\<close>: the ASCII white space, NEL, the no-break space and the separators
  of the Unicode categories Zs, Zl and Zp.
\<close>

definition isSpace :: "QChar \<Rightarrow> bool" where
  "isSpace c =
     (c = 0x20 \<or> (0x09 \<le> c \<and> c \<le> 0x0D) \<or> c = 0x85 \<or> c = 0xA0 \<or> c = 0x1680 \<or>
      (0x2000 \<le> c \<and> c \<le> 0x200A) \<or> c = 0x2028 \<or> c = 0x2029 \<or> c = 0x202F \<or>
      c = 0x205F \<or> c = 0x3000)"

text \<open>\<open>QString::trimmed\<close>: white space removed from both ends.\<close>

definition trimmed :: "QString \<Rightarrow> QString" where
  "trimmed s = rev (dropWhile isSpace (rev (dropWhile isSpace s)))"

text \<open>\<open>QString::left(n)\<close> for \<open>n \<ge> 0\<close>: the first \<open>n\<close> code units, or the whole string.\<close>

definition left :: "nat \<Rightarrow> QString \<Rightarrow> QString" where
  "left n s = take n s"

text \<open>\<open>QString::contains(pat)\<close>: \<open>pat\<close> occurs in the string as a contiguous run.\<close>

fun contains :: "QString \<Rightarrow> QString \<Rightarrow> bool" where
  "contains [] pat = (pat = [])"
| "contains (c # cs) pat = (prefix pat (c # cs) \<or> contains cs pat)"

text \<open>
  Two functions of Qt depend on tables of Unicode that are no part of the source:
  \<open>QString::fromUtf8\<close>, which decodes bytes, and \<open>QString::toUpper\<close>, which maps a
  string to upper case (not one character to one character: the sharp s becomes two
  letters, and letters outside ASCII such as the dotless i and the long s become the
  ASCII letters I and S). They are parameters of the model: every function that decodes
  or colours takes them as \<open>qt\<close>, and what is proved holds for every such pair of
  functions, Qt's own among them.
\<close>

record Qt =
  fromUtf8 :: "QByteArray \<Rightarrow> QString"
  toUpper :: "QString \<Rightarrow> QString"

text \<open>
  On ASCII text Qt decodes each byte to the code unit of the same number and maps the
  letters a to z to A to Z, leaving everything else. \<open>asciiQt\<close> does this to every
  text; it stands for Qt in the examples, whose bytes and strings are ASCII but for the
  dashes of the two messages that the source writes itself.
\<close>

definition isAscii :: "QChar \<Rightarrow> bool" where
  "isAscii c = (c < 0x80)"

definition toUpperChar :: "QChar \<Rightarrow> QChar" where
  "toUpperChar c = (if 0x61 \<le> c \<and> c \<le> 0x7A then c - 0x20 else c)"

definition toLowerChar :: "QChar \<Rightarrow> QChar" where
  "toLowerChar c = (if 0x41 \<le> c \<and> c \<le> 0x5A then c + 0x20 else c)"

definition asciiQt :: Qt where
  "asciiQt = \<lparr>fromUtf8 = qs, toUpper = map toUpperChar\<rparr>"

section \<open>Line colouring\<close>

definition colorForLine :: "Qt \<Rightarrow> QString \<Rightarrow> QColor" where
  "colorForLine qt line =
     (let head = toUpper qt (left 40 line) in
      if contains head (qs ''ERROR'') \<or> contains head (qs ''FATAL'') \<or>
         contains head (qs ''CRIT'') \<or> contains head (qs ''EMERG'') \<or>
         contains head (qs ''ALERT'')
      then ''#ff5555''
      else if contains head (qs ''WARN'')
      then ''#ffb86c''
      else if contains head (qs ''DEBUG'') \<or> contains head (qs ''TRACE'') \<or>
         contains head (qs ''VERBOSE'')
      then ''#6272a4''
      else if contains head (qs ''INFO'') \<or> contains head (qs ''NOTICE'')
      then ''#8be9fd''
      else ''#c8cee8'')"

subsection \<open>The classification as the specification words it\<close>

text \<open>
  The specification speaks of severity classes. A keyword is mentioned by a line when
  it stands at some offset in the first 40 characters of the line, taken without
  regard to case, that is, mapped to upper case as Qt does. The classes are tried in
  the order Error, Warn, Debug, Info.
\<close>

datatype Severity = Error | Warn | Debug | Info | Plain

fun severityColor :: "Severity \<Rightarrow> QColor" where
  "severityColor Error = ''#ff5555''"
| "severityColor Warn = ''#ffb86c''"
| "severityColor Debug = ''#6272a4''"
| "severityColor Info = ''#8be9fd''"
| "severityColor Plain = ''#c8cee8''"

definition occursAt :: "QString \<Rightarrow> QString \<Rightarrow> nat \<Rightarrow> bool" where
  "occursAt kw text i = (i + length kw \<le> length text \<and> take (length kw) (drop i text) = kw)"

definition mentions :: "Qt \<Rightarrow> QString \<Rightarrow> string \<Rightarrow> bool" where
  "mentions qt line kw =
     (\<exists>i\<in>{0..length (toUpper qt (take 40 line))}.
        occursAt (qs kw) (toUpper qt (take 40 line)) i)"

definition classify_spec :: "Qt \<Rightarrow> QString \<Rightarrow> Severity" where
  "classify_spec qt line =
     (if mentions qt line ''ERROR'' \<or> mentions qt line ''FATAL'' \<or>
         mentions qt line ''CRIT'' \<or> mentions qt line ''EMERG'' \<or>
         mentions qt line ''ALERT'' then Error
      else if mentions qt line ''WARN'' then Warn
      else if mentions qt line ''DEBUG'' \<or> mentions qt line ''TRACE'' \<or>
         mentions qt line ''VERBOSE''
      then Debug
      else if mentions qt line ''INFO'' \<or> mentions qt line ''NOTICE'' then Info
      else Plain)"

section \<open>JSON values and the configuration\<close>

text \<open>
  A \<open>QJsonObject\<close> maps keys to values; looking up a key that is absent gives the
  undefined value, here \<open>None\<close>. A JSON number is kept as a real: every \<open>int\<close> of the
  source is one.
\<close>

datatype QJsonValue =
    JNull
  | JBool bool
  | JDouble real
  | JString QString
  | JArray "QJsonValue list"
  | JObject "(QString \<times> QJsonValue) list"

type_synonym QJsonObject = "QString \<rightharpoonup> QJsonValue"

text \<open>\<open>QJsonValue::toString()\<close>: the string of a string value, the empty string otherwise.\<close>

definition toString :: "QJsonValue option \<Rightarrow> QString" where
  "toString v = (case v of Some (JString s) \<Rightarrow> s | _ \<Rightarrow> [])"

text \<open>
  \<open>QJsonValue::toInt(defaultValue)\<close>: the number when it is a whole number that fits an
  \<open>int\<close>, the default otherwise.
\<close>

definition toInt :: "QJsonValue option \<Rightarrow> 32 word \<Rightarrow> 32 word" where
  "toInt v defaultValue =
     (case v of
        Some (JDouble x) \<Rightarrow>
          if of_int \<lfloor>x\<rfloor> = x \<and> - (2 ^ 31) \<le> \<lfloor>x\<rfloor> \<and> \<lfloor>x\<rfloor> < 2 ^ 31
          then word_of_int \<lfloor>x\<rfloor> else defaultValue
      | _ \<Rightarrow> defaultValue)"

datatype Source = Source_None | Source_File | Source_Journalctl

record LogTailConfig =
  source :: Source
  filePath :: QString
  journalUnit :: QString
  maxLines :: "32 word"

definition defaultConfig :: LogTailConfig where
  "defaultConfig = \<lparr>source = Source_None, filePath = [], journalUnit = [], maxLines = 500\<rparr>"

section \<open>The log view\<close>

text \<open>
  \<open>logView\<close> is a \<open>QPlainTextEdit\<close>. Its document is a sequence of blocks, never empty:
  the cleared document is one block without text. A block is kept with its text and the
  colour of its text (the empty name while it has none). With a positive
  \<open>maximumBlockCount\<close> the document drops blocks from its beginning whenever an edit
  leaves more blocks than that; zero or a negative number is no limit.
\<close>

type_synonym QTextBlock = "QString \<times> QColor"

record QPlainTextEdit =
  blocks :: "QTextBlock list"
  maximumBlockCount :: int

definition clear :: "QPlainTextEdit \<Rightarrow> QPlainTextEdit" where
  "clear v = v\<lparr>blocks := [([], [])]\<rparr>"

definition ensureMaximumBlockCount :: "QPlainTextEdit \<Rightarrow> QPlainTextEdit" where
  "ensureMaximumBlockCount v =
     (if maximumBlockCount v \<le> 0 \<or> int (length (blocks v)) \<le> maximumBlockCount v then v
      else v\<lparr>blocks := drop (length (blocks v) - nat (maximumBlockCount v)) (blocks v)\<rparr>)"

definition setMaximumBlockCount :: "int \<Rightarrow> QPlainTextEdit \<Rightarrow> QPlainTextEdit" where
  "setMaximumBlockCount n v = ensureMaximumBlockCount (v\<lparr>maximumBlockCount := n\<rparr>)"

text \<open>
  The position of a cursor moved to the end of the document: the characters of all
  blocks and one separator between two blocks.
\<close>

definition endPosition :: "QTextBlock list \<Rightarrow> nat" where
  "endPosition bs = sum_list (map (\<lambda>b. length (fst b)) bs) + (length bs - 1)"

text \<open>
  \<open>QTextCursor::insertText\<close> starts a new block at every line feed, carriage return and
  paragraph separator (U+2029) of the text, and at the two characters that mark the
  frames of a document (U+FDD0, U+FDD1); a carriage return with the line feed that
  follows it starts one block, not two. \<open>paragraphs\<close> gives the pieces of a text between
  these characters, the empty ones too: as many as the separators and one more.
\<close>

definition isBlockSeparator :: "QChar \<Rightarrow> bool" where
  "isBlockSeparator ch =
     (ch = 0x0A \<or> ch = 0x2029 \<or> ch = 0xFDD0 \<or> ch = 0xFDD1 \<or> ch = 0x0D)"

fun crlf :: "QString \<Rightarrow> QString" where
  "crlf (a # b # rest) =
     (if a = 0x0D \<and> b = 0x0A then b # crlf rest else a # crlf (b # rest))"
| "crlf text = text"

fun splitBlocks :: "QString \<Rightarrow> QStringList" where
  "splitBlocks [] = [[]]"
| "splitBlocks (ch # rest) =
     (if isBlockSeparator ch then [] # splitBlocks rest
      else (case splitBlocks rest of [] \<Rightarrow> [[ch]] | p # ps \<Rightarrow> (ch # p) # ps))"

definition paragraphs :: "QString \<Rightarrow> QStringList" where
  "paragraphs text = splitBlocks (crlf text)"

text \<open>
  The text is inserted at the end of the document, in the given colour: its first
  paragraph goes to the end of the last block, every further paragraph is a new block.
  Inserting the empty text changes nothing. (A document always has a block; the model
  leaves a list without blocks as it is.)
\<close>

definition insertText :: "QTextBlock list \<Rightarrow> QString \<Rightarrow> QColor \<Rightarrow> QTextBlock list" where
  "insertText bs text color =
     (if text = [] \<or> bs = [] then bs
      else (case paragraphs text of
              [] \<Rightarrow> bs
            | p # ps \<Rightarrow>
                butlast bs @
                [if p = [] then last bs else (fst (last bs) @ p, color)] @
                map (\<lambda>q. (q, color)) ps))"

text \<open>
  The body of the loop of \<open>appendLines\<close>: a new block (\<open>insertBlock\<close>) unless the cursor
  stands at position 0, then the line is inserted as text in the colour of its class.
\<close>

definition insertLine :: "Qt \<Rightarrow> QTextBlock list \<Rightarrow> QString \<Rightarrow> QTextBlock list" where
  "insertLine qt bs line =
     insertText (if endPosition bs > 0 then bs @ [([], [])] else bs) line (colorForLine qt line)"

text \<open>
  The texts of the blocks of a view, and the lines it shows: the texts of its blocks,
  none for the cleared document, whose one block has no text.
\<close>

definition blockTexts :: "QPlainTextEdit \<Rightarrow> QStringList" where
  "blockTexts v = map fst (blocks v)"

definition viewLines :: "QPlainTextEdit \<Rightarrow> QStringList" where
  "viewLines v = (if endPosition (blocks v) = 0 then [] else map fst (blocks v))"

section \<open>The display\<close>

record QProcess =
  program :: QString
  arguments :: QStringList

text \<open>
  The state of a \<open>LogTailDisplay\<close>; the members are named as in the source, without
  the underscore that ends their names there. \<open>watcher\<close> and \<open>process\<close> are pointers: \<open>None\<close> is
  the null pointer, a watcher is the list of the paths it watches. \<open>stack\<close> is the index
  of the page shown (0 the placeholder, 1 the log view).
\<close>

record LogTailDisplay =
  config :: LogTailConfig
  sourceLabel :: QString
  stack :: nat
  logView :: QPlainTextEdit
  watcher :: "QString list option"
  process :: "QProcess option"
  filePos :: int

text \<open>The display after its constructor (\<open>setupUi\<close>).\<close>

definition newDisplay :: LogTailDisplay where
  "newDisplay =
     \<lparr>config = defaultConfig, sourceLabel = qs ''not configured'', stack = 0,
      logView = \<lparr>blocks = [([], [])], maximumBlockCount = 500\<rparr>,
      watcher = None, process = None, filePos = 0\<rparr>"

text \<open>
  The files the display can read: the bytes of a path, \<open>None\<close> when the path cannot be
  opened for reading.
\<close>

type_synonym FileSystem = "QString \<Rightarrow> QByteArray option"

datatype Fault = NullWatcher | NullProcess

subsection \<open>Text insertion helpers\<close>

text \<open>
  \<open>appendLines\<close> inserts the lines within one edit block; the block limit of the
  document takes effect when the edit block ends. \<open>appendLine\<close> then gives the last block
  of the document the colour asked for.
\<close>

definition appendLines :: "Qt \<Rightarrow> QStringList \<Rightarrow> LogTailDisplay \<Rightarrow> LogTailDisplay" where
  "appendLines qt lines d =
     (if lines = [] then d
      else d\<lparr>logView :=
        ensureMaximumBlockCount
          ((logView d)\<lparr>blocks := foldl (insertLine qt) (blocks (logView d)) lines\<rparr>)\<rparr>)"

definition appendLine :: "Qt \<Rightarrow> QString \<Rightarrow> QColor \<Rightarrow> LogTailDisplay \<Rightarrow> LogTailDisplay" where
  "appendLine qt line color d =
     (let d1 = appendLines qt [line] d; bs = blocks (logView d1) in
      d1\<lparr>logView := (logView d1)\<lparr>blocks := butlast bs @ [(fst (last bs), color)]\<rparr>\<rparr>)"

subsection \<open>Source management\<close>

text \<open>
  \<open>stopSource\<close> deletes the watcher and kills and deletes the process. Signals that the
  process sends while it is killed are not modelled; \<open>applySource\<close>, the only caller
  besides the destructor, clears the view right afterwards.
\<close>

definition stopSource :: "LogTailDisplay \<Rightarrow> LogTailDisplay" where
  "stopSource d = d\<lparr>watcher := None, process := None\<rparr>"

text \<open>\<open>QFileInfo(path).fileName()\<close>: what follows the last slash.\<close>

definition fileName :: "QString \<Rightarrow> QString" where
  "fileName p = rev (takeWhile (\<lambda>c. c \<noteq> 0x2F) (rev p))"

definition updateSourceLabel :: "LogTailDisplay \<Rightarrow> LogTailDisplay" where
  "updateSourceLabel d =
     d\<lparr>sourceLabel :=
       (case source (config d) of
          Source_File \<Rightarrow> fileName (filePath (config d))
        | Source_Journalctl \<Rightarrow>
            (if journalUnit (config d) = [] then qs ''journalctl''
             else qs ''journalctl -u '' @ journalUnit (config d))
        | Source_None \<Rightarrow> qs ''not configured'')\<rparr>"

subsection \<open>File tail\<close>

text \<open>\<open>QByteArray::split(sep)\<close>: the parts between the separators, empty parts kept.\<close>

fun split :: "char \<Rightarrow> QByteArray \<Rightarrow> QByteArray list" where
  "split sep [] = [[]]"
| "split sep (b # bs) =
     (if b = sep then [] # split sep bs
      else (case split sep bs of [] \<Rightarrow> [[b]] | r # rs \<Rightarrow> (b # r) # rs))"

text \<open>
  The loop that \<open>startFileTail\<close> and \<open>onFileChanged\<close> both run over the bytes they have
  read: split at the line feeds, decode and trim each part, keep what is not empty.
\<close>

definition splitLines :: "Qt \<Rightarrow> QByteArray \<Rightarrow> QStringList" where
  "splitLines qt bytes =
     filter (\<lambda>line. line \<noteq> []) (map (\<lambda>raw. trimmed (fromUtf8 qt raw)) (split (CHR 0x0A) bytes))"

text \<open>
  \<open>QList::mid(pos)\<close>: the elements from \<open>pos\<close> on; nothing when \<open>pos\<close> is beyond the end,
  everything when it is negative.
\<close>

definition mid :: "'a list \<Rightarrow> int \<Rightarrow> 'a list" where
  "mid xs pos = (if pos > int (length xs) then [] else drop (nat pos) xs)"

definition startFileTail :: "Qt \<Rightarrow> FileSystem \<Rightarrow> LogTailDisplay \<Rightarrow> LogTailDisplay" where
  "startFileTail qt fs d =
     (case fs (filePath (config d)) of
        None \<Rightarrow>
          (appendLine qt (qs ''Cannot open: '' @ filePath (config d)) ''#ff5555'' d)
            \<lparr>filePos := 0\<rparr>
      | Some content \<Rightarrow>
          (let fileSize = int (length content);
               seekTo = max 0 (fileSize - 100 * 1024);
               lines = splitLines qt (drop (nat seekTo) content);
               lines1 = (if int (length lines) > sint (maxLines (config d))
                         then mid lines (int (length lines) - sint (maxLines (config d)))
                         else lines)
           in (appendLines qt lines1 d)
                \<lparr>filePos := fileSize, watcher := Some [filePath (config d)]\<rparr>))"

definition rotationMarker :: QString where
  "rotationMarker = [0x2500, 0x2500, 0x2500] @ qs '' log rotated '' @ [0x2500, 0x2500, 0x2500]"

text \<open>The branch of \<open>onFileChanged\<close> taken when the file is shorter than the cursor.\<close>

definition rotated :: "Qt \<Rightarrow> LogTailDisplay \<Rightarrow> LogTailDisplay" where
  "rotated qt d =
     appendLine qt rotationMarker ''#6272a4'' (d\<lparr>filePos := 0, logView := clear (logView d)\<rparr>)"

definition onFileChanged ::
  "Qt \<Rightarrow> FileSystem \<Rightarrow> QString \<Rightarrow> LogTailDisplay \<Rightarrow> Fault + LogTailDisplay" where
  "onFileChanged qt fs path d =
     (case fs path of
        None \<Rightarrow> Inr d
      | Some content \<Rightarrow>
          (let currentSize = int (length content);
               d1 = (if currentSize < filePos d then rotated qt d else d)
           in if filePos d1 = currentSize then Inr d1
              else
                (let newData = drop (nat (filePos d1)) content;
                     d2 = d1\<lparr>filePos := filePos d1 + int (length newData)\<rparr>;
                     d3 = appendLines qt (splitLines qt newData) d2
                 in case watcher d3 of
                      None \<Rightarrow> Inl NullWatcher
                    | Some files \<Rightarrow>
                        Inr (if path \<in> set files then d3
                             else d3\<lparr>watcher := Some (files @ [path])\<rparr>))))"

subsection \<open>journalctl\<close>

definition startJournalctl :: "LogTailDisplay \<Rightarrow> LogTailDisplay" where
  "startJournalctl d =
     d\<lparr>process := Some
       \<lparr>program = qs ''journalctl'',
        arguments =
          map qs [''-f'', ''-n'', ''50'', ''--no-pager'', ''--output=short-iso''] @
          (if journalUnit (config d) \<noteq> [] then [qs ''-u'', journalUnit (config d)] else [])\<rparr>\<rparr>"

text \<open>
  The handler connected to \<open>errorOccurred\<close>: whatever the error, one line is appended.
\<close>

definition journalctlFailed :: QString where
  "journalctlFailed =
     qs ''journalctl: failed to start '' @ [0x2014] @ qs '' is systemd available?''"

definition onErrorOccurred :: "Qt \<Rightarrow> LogTailDisplay \<Rightarrow> LogTailDisplay" where
  "onErrorOccurred qt d = appendLine qt journalctlFailed ''#ff5555'' d"

text \<open>
  \<open>onJournalOutput\<close> reads the complete lines the process has ready, here \<open>ready\<close>.
\<close>

definition onJournalOutput ::
  "Qt \<Rightarrow> QByteArray list \<Rightarrow> LogTailDisplay \<Rightarrow> Fault + LogTailDisplay" where
  "onJournalOutput qt ready d =
     (case process d of
        None \<Rightarrow> Inl NullProcess
      | Some p \<Rightarrow>
          Inr (appendLines qt
                 (filter (\<lambda>line. line \<noteq> []) (map (\<lambda>raw. trimmed (fromUtf8 qt raw)) ready)) d))"

subsection \<open>Applying, saving and loading a configuration\<close>

definition applySource :: "Qt \<Rightarrow> FileSystem \<Rightarrow> LogTailDisplay \<Rightarrow> LogTailDisplay" where
  "applySource qt fs d =
     (let d1 = updateSourceLabel (stopSource d);
          d2 = d1\<lparr>logView :=
                 clear (setMaximumBlockCount (sint (maxLines (config d1))) (logView d1))\<rparr>
      in case source (config d2) of
           Source_None \<Rightarrow> d2\<lparr>stack := 0\<rparr>
         | Source_File \<Rightarrow> startFileTail qt fs (d2\<lparr>stack := 1\<rparr>)
         | Source_Journalctl \<Rightarrow> startJournalctl (d2\<lparr>stack := 1\<rparr>))"

definition saveConfig :: "LogTailDisplay \<Rightarrow> QJsonObject" where
  "saveConfig d =
     [qs ''sourceType'' \<mapsto>
        (case source (config d) of
           Source_File \<Rightarrow> JString (qs ''file'')
         | Source_Journalctl \<Rightarrow> JString (qs ''journalctl'')
         | Source_None \<Rightarrow> JString []),
      qs ''filePath'' \<mapsto> JString (filePath (config d)),
      qs ''journalUnit'' \<mapsto> JString (journalUnit (config d)),
      qs ''maxLines'' \<mapsto> JDouble (of_int (sint (maxLines (config d))))]"

definition loadConfig ::
  "Qt \<Rightarrow> FileSystem \<Rightarrow> QJsonObject \<Rightarrow> LogTailDisplay \<Rightarrow> LogTailDisplay" where
  "loadConfig qt fs obj d =
     (let type = toString (obj (qs ''sourceType'')) in
      applySource qt fs
        (d\<lparr>config :=
           \<lparr>source = (if type = qs ''file'' then Source_File
                       else if type = qs ''journalctl'' then Source_Journalctl
                       else Source_None),
            filePath = toString (obj (qs ''filePath'')),
            journalUnit = toString (obj (qs ''journalUnit'')),
            maxLines = toInt (obj (qs ''maxLines'')) 500\<rparr>\<rparr>))"

subsection \<open>The configuration dialog\<close>

text \<open>
  What the dialog holds when it is closed. The spin box has the range 50 to 5000: its
  value is the number last put into it, bounded to the range (\<open>setValue\<close> bounds, and so
  does the editing of the field).
\<close>

record ConfigDialog =
  fileRadio :: bool
  fileEdit :: QString
  unitEdit :: QString
  spinBox :: int

datatype DialogCode = Rejected | Accepted

definition spinBoxValue :: "int \<Rightarrow> int" where
  "spinBoxValue v = max 50 (min 5000 v)"

definition openConfig ::
  "Qt \<Rightarrow> FileSystem \<Rightarrow> DialogCode \<Rightarrow> ConfigDialog \<Rightarrow> LogTailDisplay \<Rightarrow> LogTailDisplay" where
  "openConfig qt fs code dlg d =
     (if code = Accepted
      then applySource qt fs
        (d\<lparr>config :=
           \<lparr>source = (if fileRadio dlg then Source_File else Source_Journalctl),
            filePath = trimmed (fileEdit dlg),
            journalUnit = trimmed (unitEdit dlg),
            maxLines = word_of_int (spinBoxValue (spinBox dlg))\<rparr>\<rparr>)
      else d)"

section \<open>The plugin\<close>






section \<open>Notions used to state the properties\<close>

text \<open>
  A view is in order when its document has a block and is within the block limit.
\<close>

definition viewOK :: "QPlainTextEdit \<Rightarrow> bool" where
  "viewOK v =
     (blocks v \<noteq> [] \<and>
      (maximumBlockCount v \<le> 0 \<or> int (length (blocks v)) \<le> maximumBlockCount v))"

text \<open>
  What a limit of \<open>n\<close> blocks keeps of a sequence of lines: the last \<open>n\<close> of them when
  \<open>n\<close> is positive, all of them otherwise.
\<close>

definition retained :: "int \<Rightarrow> 'a list \<Rightarrow> 'a list" where
  "retained n xs = (if n \<le> 0 then xs else drop (length xs - nat n) xs)"

text \<open>
  The texts of the blocks of the document that shows the given lines: the lines, and
  for no lines the one block without text of the cleared document.
\<close>

definition documentOf :: "QStringList \<Rightarrow> QStringList" where
  "documentOf ls = (if ls = [] then [[]] else ls)"

text \<open>The end position of a document, from the texts of its blocks.\<close>

definition textPosition :: "QStringList \<Rightarrow> nat" where
  "textPosition ts = sum_list (map length ts) + (length ts - 1)"

text \<open>A text is plain when it holds none of the characters that start a block.\<close>

definition plain :: "QString \<Rightarrow> bool" where
  "plain text = list_all (\<lambda>ch. \<not> isBlockSeparator ch) text"

text \<open>
  The first lines of \<open>applySource\<close>, before the source is looked at: the old source is
  stopped, the label set, the view given its limit and cleared.
\<close>

definition prepared :: "LogTailDisplay \<Rightarrow> LogTailDisplay" where
  "prepared d =
     (updateSourceLabel (stopSource d))
       \<lparr>logView := clear (setMaximumBlockCount (sint (maxLines (config d))) (logView d))\<rparr>"

text \<open>
  The configuration that \<open>loadConfig\<close> reads from an object, written out field by field.
\<close>

definition configOf :: "QJsonObject \<Rightarrow> LogTailConfig" where
  "configOf obj =
     \<lparr>source =
        (case obj (qs ''sourceType'') of
           Some (JString t) \<Rightarrow>
             if t = qs ''file'' then Source_File
             else if t = qs ''journalctl'' then Source_Journalctl else Source_None
         | _ \<Rightarrow> Source_None),
      filePath = (case obj (qs ''filePath'') of Some (JString p) \<Rightarrow> p | _ \<Rightarrow> []),
      journalUnit = (case obj (qs ''journalUnit'') of Some (JString u) \<Rightarrow> u | _ \<Rightarrow> []),
      maxLines = toInt (obj (qs ''maxLines'')) 500\<rparr>"

text \<open>Concrete surroundings for the examples: a path, and file systems with one file or none.\<close>

definition exampleLog :: QString where
  "exampleLog = qs ''/var/log/app.log''"

definition onlyFile :: "QString \<Rightarrow> QByteArray \<Rightarrow> FileSystem" where
  "onlyFile path content = (\<lambda>p. if p = path then Some content else None)"

definition noFiles :: FileSystem where
  "noFiles = (\<lambda>p. None)"

definition fileConfig :: "32 word \<Rightarrow> LogTailConfig" where
  "fileConfig n = \<lparr>source = Source_File, filePath = exampleLog, journalUnit = [], maxLines = n\<rparr>"

text \<open>
  What is assumed of Qt's upper-casing where a statement is about letters: on a string
  of ASCII characters it turns the letters a to z into A to Z and changes nothing else.
\<close>

definition asciiCase :: "Qt \<Rightarrow> bool" where
  "asciiCase qt = (\<forall>s. list_all isAscii s \<longrightarrow> toUpper qt s = map toUpperChar s)"

text \<open>The lines that a list of blocks shows: none when the document holds no text.\<close>

definition shown :: "QTextBlock list \<Rightarrow> QStringList" where
  "shown bs = (if endPosition bs = 0 then [] else map fst bs)"

section \<open>Properties of the line colouring\<close>

lemma prefix_take_iff:
  "prefix p s \<longleftrightarrow> length p \<le> length s \<and> take (length p) s = p"
  by (metis prefix_length_le take_is_prefix prefix_def append_eq_conv_conj)

lemma contains_iff:
  "contains s p \<longleftrightarrow> (\<exists>i. i + length p \<le> length s \<and> take (length p) (drop i s) = p)"
proof (induction s)
  case Nil
  then show ?case by auto
next
  case (Cons c cs)
  show ?case
  proof
    assume "contains (c # cs) p"
    then consider "prefix p (c # cs)" | "contains cs p" by auto
    then show "\<exists>i. i + length p \<le> length (c # cs) \<and> take (length p) (drop i (c # cs)) = p"
    proof cases
      case 1
      then have "0 + length p \<le> length (c # cs) \<and> take (length p) (drop 0 (c # cs)) = p"
        by (simp add: prefix_take_iff)
      then show ?thesis by blast
    next
      case 2
      then obtain i where "i + length p \<le> length cs" "take (length p) (drop i cs) = p"
        using Cons.IH by blast
      then have "Suc i + length p \<le> length (c # cs) \<and>
                 take (length p) (drop (Suc i) (c # cs)) = p"
        by simp
      then show ?thesis by blast
    qed
  next
    assume "\<exists>i. i + length p \<le> length (c # cs) \<and> take (length p) (drop i (c # cs)) = p"
    then obtain i where i: "i + length p \<le> length (c # cs)"
      "take (length p) (drop i (c # cs)) = p" by blast
    show "contains (c # cs) p"
    proof (cases i)
      case 0
      with i have "prefix p (c # cs)" by (simp add: prefix_take_iff)
      then show ?thesis by simp
    next
      case (Suc j)
      with i have "j + length p \<le> length cs \<and> take (length p) (drop j cs) = p" by simp
      then have "contains cs p" using Cons.IH by blast
      then show ?thesis by simp
    qed
  qed
qed

lemma contains_mentions:
  "contains (toUpper qt (left 40 line)) (qs kw) = mentions qt line kw"
proof -
  have "(\<exists>i. occursAt p s i) = (\<exists>i\<in>{0..length s}. occursAt p s i)" for p s :: QString
    by (auto simp: occursAt_def)
  then show ?thesis
    by (simp add: contains_iff mentions_def left_def occursAt_def)
qed

lemma colorForLine_classify:
  "colorForLine qt line = severityColor (classify_spec qt line)"
  by (simp add: colorForLine_def classify_spec_def Let_def contains_mentions)

lemma colorForLine_left:
  "colorForLine qt (take 40 line) = colorForLine qt line"
  by (simp add: colorForLine_def left_def)

lemma colorForLine_ascii:
  assumes "asciiCase qt" "list_all isAscii (take 40 line)"
  shows "colorForLine qt line = colorForLine asciiQt line"
proof -
  have "toUpper qt (left 40 line) = toUpper asciiQt (left 40 line)"
    using assms by (simp add: asciiCase_def asciiQt_def left_def)
  then show ?thesis by (simp add: colorForLine_def)
qed

lemma isAscii_qs: "list_all isAscii (qs s) = list_all (\<lambda>c. \<not> digit7 c) s"
proof (induction s)
  case Nil
  then show ?case by (simp add: qs_def)
next
  case (Cons c s)
  then show ?case by (cases c) (simp add: qs_def isAscii_def)
qed

lemma contains_set: "contains s p \<Longrightarrow> set p \<subseteq> set s"
proof -
  assume "contains s p"
  then obtain i where "take (length p) (drop i s) = p" by (auto simp: contains_iff)
  then have "set p = set (take (length p) (drop i s))" by simp
  also have "\<dots> \<subseteq> set (drop i s)" by (rule set_take_subset)
  also have "\<dots> \<subseteq> set s" by (rule set_drop_subset)
  finally show ?thesis .
qed

lemma ascii_examples:
  "colorForLine asciiQt (qs ''ERROR: disk full'') = severityColor Error"
  "colorForLine asciiQt (qs ''2024-01-01 INFO starting'') = severityColor Info"
  "colorForLine asciiQt (qs ''plain text'') = severityColor Plain"
  "colorForLine asciiQt (qs ''warn: low disk'') = severityColor Warn"
  by (simp_all add: colorForLine_def asciiQt_def qs_def toUpperChar_def left_def)

lemma ascii_far_warn:
  "colorForLine asciiQt (qs (replicate 200 CHR ''.'' @ ''warn'')) = severityColor Plain"
proof -
  have t: "take 40 (qs (replicate 200 CHR ''.'' @ ''warn'')) = replicate 40 0x2E"
    by (simp add: qs_def)
  have n: "\<not> contains (replicate 40 0x2E) p"
    if nz: "p \<noteq> []" and ni: "0x2E \<notin> set p" for p :: QString
  proof
    assume "contains (replicate 40 (0x2E::QChar)) p"
    then have "set p \<subseteq> set (replicate 40 (0x2E::QChar))" by (rule contains_set)
    then have "set p \<subseteq> {0x2E}" by simp
    moreover obtain c cs where "p = c # cs" using nz by (cases p) auto
    ultimately show False using ni by auto
  qed
  have "colorForLine asciiQt (qs (replicate 200 CHR ''.'' @ ''warn'')) =
        colorForLine asciiQt (replicate 40 0x2E)"
    using colorForLine_left [of asciiQt "qs (replicate 200 CHR ''.'' @ ''warn'')"] t by simp
  also have "\<dots> = severityColor Plain"
    by (simp add: colorForLine_def asciiQt_def toUpperChar_def left_def n qs_def)
  finally show ?thesis .
qed

lemma colorForLine_examples:
  assumes "asciiCase qt"
  shows "colorForLine qt (qs ''ERROR: disk full'') = severityColor Error"
    and "colorForLine qt (qs ''2024-01-01 INFO starting'') = severityColor Info"
    and "colorForLine qt (qs ''plain text'') = severityColor Plain"
    and "colorForLine qt (qs (replicate 200 CHR ''.'' @ ''warn'')) = severityColor Plain"
proof -
  have a: "list_all isAscii (take 40 (qs ''ERROR: disk full''))"
    "list_all isAscii (take 40 (qs ''2024-01-01 INFO starting''))"
    "list_all isAscii (take 40 (qs ''plain text''))"
    "list_all isAscii (take 40 (qs (replicate 200 CHR ''.'' @ ''warn'')))"
    by (simp_all add: qs_def isAscii_def list_all_iff)
  show "colorForLine qt (qs ''ERROR: disk full'') = severityColor Error"
    using colorForLine_ascii [OF assms a(1)] ascii_examples(1) by simp
  show "colorForLine qt (qs ''2024-01-01 INFO starting'') = severityColor Info"
    using colorForLine_ascii [OF assms a(2)] ascii_examples(2) by simp
  show "colorForLine qt (qs ''plain text'') = severityColor Plain"
    using colorForLine_ascii [OF assms a(3)] ascii_examples(3) by simp
  show "colorForLine qt (qs (replicate 200 CHR ''.'' @ ''warn'')) = severityColor Plain"
    using colorForLine_ascii [OF assms a(4)] ascii_far_warn by simp
qed

lemma toUpperChar_ascii: "isAscii c \<Longrightarrow> isAscii (toUpperChar c)"
  by (simp add: isAscii_def toUpperChar_def word_less_nat_alt word_le_nat_alt unat_sub_if_size word_size)
     unat_arith

lemma toLowerChar_ascii: "isAscii c \<Longrightarrow> isAscii (toLowerChar c)"
  by (auto simp: isAscii_def toLowerChar_def word_less_nat_alt word_le_nat_alt unat_word_ariths)

lemma toUpperChar_idem: "toUpperChar (toUpperChar c) = toUpperChar c"
proof (cases "0x61 \<le> c \<and> c \<le> 0x7A")
  case True
  then have "\<not> 0x61 \<le> c - 0x20"
    by (simp add: word_le_nat_alt unat_sub_if_size word_size) unat_arith
  with True show ?thesis by (simp add: toUpperChar_def)
next
  case False
  then show ?thesis by (simp add: toUpperChar_def)
qed

lemma toUpperChar_lower: "toUpperChar (toLowerChar c) = toUpperChar c"
proof (cases "0x41 \<le> c \<and> c \<le> 0x5A")
  case True
  then have "0x61 \<le> c + 0x20 \<and> c + 0x20 \<le> 0x7A" "\<not> (0x61 \<le> c \<and> c \<le> 0x7A)"
    by (auto simp: word_le_nat_alt unat_word_ariths)
  with True show ?thesis by (simp add: toUpperChar_def toLowerChar_def)
next
  case False
  then show ?thesis by (auto simp: toLowerChar_def)
qed

lemma colorForLine_case:
  assumes "asciiCase qt" "list_all isAscii line"
  shows "colorForLine qt (map toUpperChar line) = colorForLine qt line"
    and "colorForLine qt (map toLowerChar line) = colorForLine qt line"
proof -
  have l: "list_all isAscii (take 40 line)"
    using assms(2) by (metis append_take_drop_id list_all_append)
  have u: "list_all isAscii (take 40 (map toUpperChar line))"
    using l by (simp add: take_map list_all_iff toUpperChar_ascii)
  have w: "list_all isAscii (take 40 (map toLowerChar line))"
    using l by (simp add: take_map list_all_iff toLowerChar_ascii)
  have c: "toUpperChar \<circ> toUpperChar = toUpperChar" "toUpperChar \<circ> toLowerChar = toUpperChar"
    by (rule ext, simp add: toUpperChar_idem) (rule ext, simp add: toUpperChar_lower)
  have "colorForLine asciiQt (map toUpperChar line) = colorForLine asciiQt line"
    by (simp add: colorForLine_def asciiQt_def left_def take_map c)
  then show "colorForLine qt (map toUpperChar line) = colorForLine qt line"
    using colorForLine_ascii [OF assms(1) l] colorForLine_ascii [OF assms(1) u] by simp
  have "colorForLine asciiQt (map toLowerChar line) = colorForLine asciiQt line"
    by (simp add: colorForLine_def asciiQt_def left_def take_map c)
  then show "colorForLine qt (map toLowerChar line) = colorForLine qt line"
    using colorForLine_ascii [OF assms(1) l] colorForLine_ascii [OF assms(1) w] by simp
qed

lemma asciiCase_asciiQt: "asciiCase asciiQt"
  by (simp add: asciiCase_def asciiQt_def)

text \<open>
  C4. For every line, and whatever the upper-casing of Qt does, the colour of the line is
  the colour of the class described: the keywords are looked for in the upper-cased
  first 40 characters only, and the classes are tried in the order Error (ERROR, FATAL,
  CRIT, EMERG, ALERT), Warn (WARN), Debug (DEBUG, TRACE, VERBOSE), Info (INFO, NOTICE),
  else Plain; what follows the first 40 characters does not matter, and the colour is a
  function of the line alone. When the upper-casing acts on ASCII text as Qt's does
  (\<open>asciiCase\<close>), the colour of an ASCII line is the same in upper and in lower case, and
  the examples are coloured as stated: "ERROR: disk full" is Error, "2024-01-01 INFO
  starting" is Info, "plain text" is Plain, and the line whose only "warn" starts at
  character 200 is Plain.
\<close>

theorem colorForLine_severity:
  "colorForLine qt line = severityColor (classify_spec qt line) \<and>
   colorForLine qt (take 40 line) = colorForLine qt line \<and>
   (asciiCase qt \<longrightarrow>
      (list_all isAscii line \<longrightarrow>
         colorForLine qt (map toUpperChar line) = colorForLine qt line \<and>
         colorForLine qt (map toLowerChar line) = colorForLine qt line) \<and>
      colorForLine qt (qs ''ERROR: disk full'') = severityColor Error \<and>
      colorForLine qt (qs ''2024-01-01 INFO starting'') = severityColor Info \<and>
      colorForLine qt (qs ''plain text'') = severityColor Plain \<and>
      colorForLine qt (qs (replicate 200 CHR ''.'' @ ''warn'')) = severityColor Plain)"
proof -
  have "colorForLine qt line = severityColor (classify_spec qt line)"
    by (rule colorForLine_classify)
  moreover have "colorForLine qt (take 40 line) = colorForLine qt line"
    by (rule colorForLine_left)
  ultimately show ?thesis
    using colorForLine_examples [of qt] colorForLine_case [of qt line] by blast
qed

theorem colorForLine_severity_witness:
  "asciiCase asciiQt \<and> list_all isAscii (qs ''warn: low disk'') \<and>
   classify_spec asciiQt (qs ''warn: low disk'') = Warn \<and>
   colorForLine asciiQt (qs ''WARN: LOW DISK'') = ''#ffb86c'' \<and>
   colorForLine asciiQt (qs ''ERROR: disk full'') = ''#ff5555''"
proof -
  have a: "list_all isAscii (qs ''warn: low disk'')" by (simp add: qs_def isAscii_def)
  have up: "map toUpperChar (qs ''warn: low disk'') = qs ''WARN: LOW DISK''"
    by (simp add: toUpperChar_def qs_def)
  note t = colorForLine_severity [of asciiQt "qs ''warn: low disk''"]
  have "severityColor (classify_spec asciiQt (qs ''warn: low disk'')) = ''#ffb86c''"
    using t ascii_examples(4) by simp
  then have "classify_spec asciiQt (qs ''warn: low disk'') = Warn"
    by (cases "classify_spec asciiQt (qs ''warn: low disk'')") simp_all
  moreover have "colorForLine asciiQt (qs ''WARN: LOW DISK'') = ''#ffb86c''"
    using t asciiCase_asciiQt a ascii_examples(4) up by simp
  moreover have "colorForLine asciiQt (qs ''ERROR: disk full'') = ''#ff5555''"
    using t asciiCase_asciiQt by simp
  ultimately show ?thesis using asciiCase_asciiQt a by simp
qed

section \<open>Properties of the view\<close>

lemma viewLines_shown: "viewLines v = shown (blocks v)"
  by (simp add: viewLines_def shown_def)

lemma splitBlocks_nonempty: "splitBlocks t \<noteq> []"
  by (induction t) (auto split: list.splits)

lemma paragraphs_nonempty: "paragraphs t \<noteq> []"
  by (simp add: paragraphs_def splitBlocks_nonempty)

lemma crlf_nonempty: "t \<noteq> [] \<Longrightarrow> crlf t \<noteq> []"
  by (induction t rule: crlf.induct) auto

lemma splitBlocks_position:
  assumes "t \<noteq> []"
  shows "0 < textPosition (splitBlocks t)"
proof -
  obtain ch rest where t: "t = ch # rest" using assms by (cases t) auto
  obtain p ps where p: "splitBlocks rest = p # ps"
    using splitBlocks_nonempty [of rest] by (cases "splitBlocks rest") auto
  show ?thesis using t p by (simp add: textPosition_def)
qed

lemma paragraphs_position: "t \<noteq> [] \<Longrightarrow> 0 < textPosition (paragraphs t)"
  by (simp add: paragraphs_def splitBlocks_position crlf_nonempty)

lemma crlf_plain: "plain t \<Longrightarrow> crlf t = t"
  by (induction t rule: crlf.induct) (auto simp: plain_def isBlockSeparator_def)

lemma splitBlocks_plain: "plain t \<Longrightarrow> splitBlocks t = [t]"
  by (induction t) (auto simp: plain_def)

lemma paragraphs_plain: "plain t \<Longrightarrow> paragraphs t = [t]"
  by (simp add: paragraphs_def crlf_plain splitBlocks_plain)

lemma endPosition_texts: "endPosition bs = textPosition (map fst bs)"
  by (simp add: endPosition_def textPosition_def comp_def)

lemma textPosition_append: "textPosition ys \<le> textPosition (xs @ ys)"
  by (simp add: textPosition_def)

lemma endPosition_zero:
  "bs \<noteq> [] \<Longrightarrow> endPosition bs = 0 \<Longrightarrow> \<exists>c. bs = [([], c)]"
  by (cases bs) (auto simp: endPosition_def)

lemma insertText_texts:
  assumes "bs \<noteq> []" "text \<noteq> []"
  shows "map fst (insertText bs text color) =
           butlast (map fst bs) @ [last (map fst bs) @ hd (paragraphs text)] @ tl (paragraphs text)"
proof -
  obtain p ps where p: "paragraphs text = p # ps"
    using paragraphs_nonempty [of "text"] by (cases "paragraphs text") auto
  show ?thesis using assms p
    by (simp add: insertText_def map_butlast last_map comp_def)
qed

lemma insertLine_texts:
  assumes "bs \<noteq> []" "line \<noteq> []"
  shows "insertLine qt bs line \<noteq> [] \<and> 0 < endPosition (insertLine qt bs line) \<and>
         map fst (insertLine qt bs line) = shown bs @ paragraphs line"
proof -
  obtain p ps where p: "paragraphs line = p # ps"
    using paragraphs_nonempty [of line] by (cases "paragraphs line") auto
  have t: "map fst (insertLine qt bs line) = shown bs @ paragraphs line"
  proof (cases "endPosition bs = 0")
    case True
    then obtain c where "bs = [([], c)]" using assms(1) endPosition_zero by blast
    then show ?thesis using assms(2) p True
      by (simp add: insertLine_def insertText_texts shown_def)
  next
    case False
    then show ?thesis using assms p
      by (simp add: insertLine_def insertText_texts shown_def)
  qed
  have "0 < textPosition (shown bs @ paragraphs line)"
    using paragraphs_position [OF assms(2)] textPosition_append [of "paragraphs line" "shown bs"]
    by simp
  then have "0 < endPosition (insertLine qt bs line)"
    by (simp add: endPosition_texts t)
  moreover have "insertLine qt bs line \<noteq> []"
    using t p by auto
  ultimately show ?thesis using t by simp
qed

lemma foldl_insertLine:
  "bs \<noteq> [] \<Longrightarrow> list_all (\<lambda>l. l \<noteq> []) lines \<Longrightarrow>
     foldl (insertLine qt) bs lines \<noteq> [] \<and>
     shown (foldl (insertLine qt) bs lines) = shown bs @ concat (map paragraphs lines)"
proof (induction lines arbitrary: bs)
  case Nil
  then show ?case by simp
next
  case (Cons l ls)
  have l: "l \<noteq> []" and ls: "list_all (\<lambda>l. l \<noteq> []) ls" using Cons.prems(2) by simp_all
  note i = insertLine_texts [OF Cons.prems(1) l, of qt]
  have "shown (insertLine qt bs l) = shown bs @ paragraphs l"
    using i by (simp add: shown_def)
  with Cons.IH [of "insertLine qt bs l"] i ls show ?case by simp
qed

lemma blockTexts_ensure:
  "blockTexts (ensureMaximumBlockCount v) = retained (maximumBlockCount v) (blockTexts v)"
  by (auto simp: ensureMaximumBlockCount_def retained_def blockTexts_def drop_map)

lemma maximumBlockCount_ensure:
  "maximumBlockCount (ensureMaximumBlockCount v) = maximumBlockCount v"
  by (simp add: ensureMaximumBlockCount_def)

lemma viewOK_ensure: "blocks v \<noteq> [] \<Longrightarrow> viewOK (ensureMaximumBlockCount v)"
  by (auto simp: viewOK_def ensureMaximumBlockCount_def)

lemma documentOf_shown:
  "bs \<noteq> [] \<Longrightarrow> documentOf (shown bs) = map fst bs"
proof (cases "endPosition bs = 0")
  case True
  assume "bs \<noteq> []"
  then obtain c where "bs = [([], c)]" using True endPosition_zero by blast
  then show ?thesis by (simp add: documentOf_def shown_def endPosition_def)
next
  case False
  assume "bs \<noteq> []"
  with False show ?thesis by (simp add: documentOf_def shown_def)
qed

lemma retained_within:
  "n \<le> 0 \<or> int (length xs) \<le> n \<Longrightarrow> retained n xs = xs"
  by (auto simp: retained_def)

lemma appendLines_view:
  assumes "viewOK (logView d)" "list_all (\<lambda>l. l \<noteq> []) lines"
  shows "viewOK (logView (appendLines qt lines d)) \<and>
         maximumBlockCount (logView (appendLines qt lines d)) = maximumBlockCount (logView d) \<and>
         blockTexts (logView (appendLines qt lines d)) =
           retained (maximumBlockCount (logView d))
             (documentOf (viewLines (logView d) @ concat (map paragraphs lines)))"
proof (cases "lines = []")
  case True
  have "documentOf (viewLines (logView d)) = blockTexts (logView d)"
    using assms(1) by (simp add: viewLines_shown documentOf_shown viewOK_def blockTexts_def)
  moreover have "retained (maximumBlockCount (logView d)) (blockTexts (logView d)) =
      blockTexts (logView d)"
    using assms(1) by (intro retained_within) (simp add: viewOK_def blockTexts_def)
  ultimately show ?thesis using True assms(1) by (simp add: appendLines_def)
next
  case False
  define bs where "bs = foldl (insertLine qt) (blocks (logView d)) lines"
  define v where "v = (logView d)\<lparr>blocks := bs\<rparr>"
  have b: "bs \<noteq> []" "shown bs = viewLines (logView d) @ concat (map paragraphs lines)"
    using foldl_insertLine [of "blocks (logView d)" lines qt] assms
    by (simp_all add: bs_def viewOK_def viewLines_shown)
  obtain l ls where "lines = l # ls" using False by (cases lines) auto
  then have "concat (map paragraphs lines) \<noteq> []"
    using paragraphs_nonempty [of l] by simp
  then have "shown bs \<noteq> []" using b(2) by simp
  then have "documentOf (shown bs) = shown bs" "shown bs = map fst bs"
    by (simp_all add: documentOf_def shown_def split: if_splits)
  then have t: "blockTexts v =
      documentOf (viewLines (logView d) @ concat (map paragraphs lines))"
    using b(2) by (simp add: v_def blockTexts_def)
  have "logView (appendLines qt lines d) = ensureMaximumBlockCount v"
    using False by (simp add: appendLines_def v_def bs_def)
  moreover have "blocks v \<noteq> []" "maximumBlockCount v = maximumBlockCount (logView d)"
    using b(1) by (simp_all add: v_def)
  ultimately show ?thesis
    using t by (simp add: blockTexts_ensure maximumBlockCount_ensure viewOK_ensure)
qed

lemma recolour_texts:
  "bs \<noteq> [] \<Longrightarrow> map fst (butlast bs @ [(fst (last bs), color)]) = map fst bs"
proof -
  assume "bs \<noteq> []"
  then have "map fst bs = map fst (butlast bs @ [last bs])" by simp
  then show ?thesis by simp
qed

lemma appendLine_view:
  assumes "viewOK (logView d)" "line \<noteq> []"
  shows "viewOK (logView (appendLine qt line color d)) \<and>
         maximumBlockCount (logView (appendLine qt line color d)) =
           maximumBlockCount (logView d) \<and>
         blockTexts (logView (appendLine qt line color d)) =
           retained (maximumBlockCount (logView d)) (viewLines (logView d) @ paragraphs line)"
proof -
  define d1 where "d1 = appendLines qt [line] d"
  define bs where "bs = blocks (logView d1)"
  define bs' where "bs' = butlast bs @ [(fst (last bs), color)]"
  have ne: "viewLines (logView d) @ paragraphs line \<noteq> []"
    using paragraphs_nonempty [of line] by simp
  have a: "viewOK (logView d1)" "maximumBlockCount (logView d1) = maximumBlockCount (logView d)"
    "blockTexts (logView d1) =
       retained (maximumBlockCount (logView d)) (viewLines (logView d) @ paragraphs line)"
    using appendLines_view [OF assms(1), of "[line]" qt] assms(2)
    by (simp_all add: d1_def documentOf_def paragraphs_nonempty)
  have n: "bs \<noteq> []" using a(1) by (simp add: viewOK_def bs_def)
  have m: "map fst bs' = map fst bs" unfolding bs'_def using n by (rule recolour_texts)
  then have len: "length bs' = length bs" by (rule map_eq_imp_length_eq)
  have l: "logView (appendLine qt line color d) = (logView d1)\<lparr>blocks := bs'\<rparr>"
    by (simp add: appendLine_def Let_def d1_def bs_def bs'_def)
  have "bs' \<noteq> []" by (simp add: bs'_def)
  then have "viewOK ((logView d1)\<lparr>blocks := bs'\<rparr>)"
    using a(1) len by (simp add: viewOK_def bs_def)
  moreover have "blockTexts ((logView d1)\<lparr>blocks := bs'\<rparr>) = blockTexts (logView d1)"
    using m by (simp add: blockTexts_def bs_def)
  ultimately show ?thesis using a l by simp
qed

lemma length_viewLines: "length (viewLines v) \<le> length (blocks v)"
  by (simp add: viewLines_def)

lemma viewOK_bound:
  "viewOK v \<Longrightarrow> 0 < maximumBlockCount v \<Longrightarrow> int (length (viewLines v)) \<le> maximumBlockCount v"
  using length_viewLines [of v] by (simp add: viewOK_def)

lemma viewLines_blockTexts: "viewLines v = (if textPosition (blockTexts v) = 0 then [] else blockTexts v)"
  by (simp add: viewLines_def blockTexts_def endPosition_texts)

lemma viewOK_clear: "viewOK (clear (setMaximumBlockCount n v))"
  by (simp add: viewOK_def clear_def setMaximumBlockCount_def ensureMaximumBlockCount_def) linarith

lemma viewOK_cleared: "viewOK (clear v)"
  by (simp add: viewOK_def clear_def) linarith

lemma viewLines_clear: "viewLines (clear v) = []"
  by (simp add: viewLines_def clear_def endPosition_def)

lemma blockTexts_clear: "blockTexts (clear v) = [[]]"
  by (simp add: blockTexts_def clear_def)

lemma maximumBlockCount_clear:
  "maximumBlockCount (clear (setMaximumBlockCount n v)) = n"
  by (simp add: clear_def setMaximumBlockCount_def ensureMaximumBlockCount_def)

lemma retained_single: "retained n [x] = [x]"
  by (simp add: retained_def)

lemma viewLines_of_texts:
  "blockTexts v = ts \<Longrightarrow> 0 < textPosition ts \<Longrightarrow> viewLines v = ts"
  by (simp add: viewLines_blockTexts)

lemma textPosition_single: "x \<noteq> [] \<Longrightarrow> 0 < textPosition [x]"
  by (simp add: textPosition_def)

lemma maximumBlockCount_appendLines:
  "maximumBlockCount (logView (appendLines qt ls d)) = maximumBlockCount (logView d)"
  by (simp add: appendLines_def ensureMaximumBlockCount_def)

lemma viewOK_newDisplay: "viewOK (logView newDisplay)"
  "viewLines (logView newDisplay) = []" "maximumBlockCount (logView newDisplay) = 500"
  by (simp_all add: newDisplay_def viewOK_def viewLines_def endPosition_def)

text \<open>
  One call of \<open>appendLines\<close> on a view whose block limit is positive leaves at most that
  many lines, the end of what the view held followed by the blocks of the new lines; a
  limit that is not positive keeps everything.
\<close>

lemma appendLines_bounded:
  assumes "viewOK (logView d)" "list_all (\<lambda>l. l \<noteq> []) lines" "0 < maximumBlockCount (logView d)"
  shows "int (length (viewLines (logView (appendLines qt lines d)))) \<le> maximumBlockCount (logView d) \<and>
         suffix (blockTexts (logView (appendLines qt lines d)))
           (documentOf (viewLines (logView d) @ concat (map paragraphs lines)))"
proof -
  note a = appendLines_view [OF assms(1,2), of qt]
  have "int (length (viewLines (logView (appendLines qt lines d)))) \<le> maximumBlockCount (logView d)"
    using viewOK_bound [of "logView (appendLines qt lines d)"] a assms(3) by simp
  moreover have "suffix (blockTexts (logView (appendLines qt lines d)))
           (documentOf (viewLines (logView d) @ concat (map paragraphs lines)))"
    using a by (simp add: retained_def suffix_drop)
  ultimately show ?thesis by simp
qed

lemma appendLines_unlimited:
  assumes "viewOK (logView d)" "list_all (\<lambda>l. l \<noteq> []) lines" "maximumBlockCount (logView d) \<le> 0"
  shows "blockTexts (logView (appendLines qt lines d)) =
           documentOf (viewLines (logView d) @ concat (map paragraphs lines))"
  using appendLines_view [OF assms(1,2), of qt] assms(3) by (simp add: retained_def)

text \<open>
  The same for every sequence of calls on a cleared view: the document is what the block
  limit keeps of the blocks of all lines appended so far, in their order.
\<close>

lemma textPosition_zero: "textPosition ts = 0 \<Longrightarrow> ts = [] \<or> ts = [[]]"
proof (cases ts)
  case Nil
  then show ?thesis by simp
next
  case (Cons t rest)
  assume "textPosition ts = 0"
  then show ?thesis using Cons by (cases rest) (auto simp: textPosition_def)
qed

lemma textPosition_concat_paragraphs:
  "list_all (\<lambda>l. l \<noteq> []) ls \<Longrightarrow> ls \<noteq> [] \<Longrightarrow> 0 < textPosition (concat (map paragraphs ls))"
proof (induction ls)
  case Nil
  then show ?case by simp
next
  case (Cons l ls)
  have "0 < textPosition (paragraphs l)" using Cons.prems by (simp add: paragraphs_position)
  moreover have "textPosition (paragraphs l) \<le> textPosition (paragraphs l @ concat (map paragraphs ls))"
    using paragraphs_nonempty [of l]
    by (cases "paragraphs l") (auto simp: textPosition_def)
  ultimately show ?case by simp
qed

lemma retained_append:
  assumes "A = [] \<or> 0 < textPosition A"
  shows "retained n (documentOf
           ((if textPosition (retained n (documentOf A)) = 0 then []
             else retained n (documentOf A)) @ P)) =
         retained n (documentOf (A @ P))"
proof (cases "A = []")
  case True
  then show ?thesis by (simp add: documentOf_def retained_def textPosition_def)
next
  case False
  then have pos: "0 < textPosition A" using assms by simp
  have dA: "documentOf A = A" using False by (simp add: documentOf_def)
  show ?thesis
  proof (cases "n \<le> 0")
    case True
    then show ?thesis using pos dA by (simp add: retained_def)
  next
    case n: False
    define T where "T = drop (length A - nat n) A"
    have T: "retained n (documentOf A) = T" using n dA by (simp add: retained_def T_def)
    have "0 < length A" "0 < nat n" using False n by simp_all
    then have "length A - nat n < length A" by linarith
    then have Tne: "T \<noteq> []" by (simp add: T_def)
    show ?thesis
    proof (cases "textPosition T = 0")
      case True
      then have e: "T = [[]]" using textPosition_zero [of T] Tne by simp
      then have "length T = 1" by simp
      then have "length A - (length A - nat n) = 1" by (simp add: T_def)
      then have "min (length A) (nat n) = 1" by arith
      moreover have "length A \<noteq> 1"
      proof
        assume "length A = 1"
        then have "length A - nat n = 0" using \<open>0 < nat n\<close> by simp
        then have "T = A" by (simp add: T_def)
        then show False using pos True by simp
      qed
      ultimately have n1: "nat n = 1" by (simp add: min_def split: if_splits)
      show ?thesis
      proof (cases "P = []")
        case True
        then show ?thesis using T e dA n by (simp add: documentOf_def retained_def T_def)
      next
        case False
        then have "0 < length P" by simp
        then have "length A \<le> length A + length P - Suc 0" by linarith
        then show ?thesis using False T True n1 n \<open>A \<noteq> []\<close>
          by (simp add: documentOf_def retained_def)
      qed
    next
      case False
      have "drop (length T + length P - nat n) (T @ P) =
            drop (length A + length P - nat n) (A @ P)"
        by (cases "length A \<le> nat n") (simp_all add: T_def add.commute)
      then show ?thesis using T False Tne \<open>A \<noteq> []\<close> n
        by (simp add: documentOf_def retained_def)
    qed
  qed
qed

lemma foldl_appendLines:
  assumes "blockTexts (logView d) = [[]]"
      and "\<forall>ls\<in>set batches. list_all (\<lambda>l. l \<noteq> []) ls"
  shows "viewOK (logView (foldl (\<lambda>d ls. appendLines qt ls d) d batches)) \<and>
         maximumBlockCount (logView (foldl (\<lambda>d ls. appendLines qt ls d) d batches)) =
           maximumBlockCount (logView d) \<and>
         blockTexts (logView (foldl (\<lambda>d ls. appendLines qt ls d) d batches)) =
           retained (maximumBlockCount (logView d))
             (documentOf (concat (map paragraphs (concat batches))))"
  using assms(2)
proof (induction batches rule: rev_induct)
  case Nil
  have "blocks (logView d) \<noteq> []" "length (blocks (logView d)) = 1"
    using assms(1) by (auto simp: blockTexts_def)
  then have "viewOK (logView d)" by (auto simp: viewOK_def)
  then show ?case using assms(1) by (simp add: documentOf_def retained_single)
next
  case (snoc ls batches)
  define e where "e = foldl (\<lambda>d ls. appendLines qt ls d) d batches"
  define A where "A = concat (map paragraphs (concat batches))"
  define n where "n = maximumBlockCount (logView d)"
  have ih: "viewOK (logView e)" "maximumBlockCount (logView e) = n"
    "blockTexts (logView e) = retained n (documentOf A)"
    using snoc by (simp_all add: e_def A_def n_def)
  have ne: "list_all (\<lambda>l. l \<noteq> []) ls" using snoc.prems by simp
  have all: "list_all (\<lambda>l. l \<noteq> []) (concat batches)"
    using snoc.prems by (auto simp: list_all_iff)
  have inv: "A = [] \<or> 0 < textPosition A"
  proof (cases "concat batches = []")
    case True
    then have "A = []" unfolding A_def by (simp only: list.map concat.simps)
    then show ?thesis by simp
  next
    case False
    from textPosition_concat_paragraphs [OF all False] show ?thesis unfolding A_def by simp
  qed
  note a = appendLines_view [OF ih(1) ne, of qt]
  have v: "viewLines (logView e) =
      (if textPosition (retained n (documentOf A)) = 0 then [] else retained n (documentOf A))"
    by (simp only: viewLines_blockTexts ih(3))
  have "blockTexts (logView (appendLines qt ls e)) =
      retained n (documentOf (viewLines (logView e) @ concat (map paragraphs ls)))"
    using a by (simp only: ih(2))
  then have "blockTexts (logView (appendLines qt ls e)) =
      retained n (documentOf (A @ concat (map paragraphs ls)))"
    by (simp only: v retained_append [OF inv])
  then show ?case using a ih by (simp add: e_def [symmetric] A_def n_def [symmetric])
qed

lemma foldl_appendLines_bounded:
  assumes "blockTexts (logView d) = [[]]"
      and "\<forall>ls\<in>set batches. list_all (\<lambda>l. l \<noteq> []) ls"
      and "0 < maximumBlockCount (logView d)"
  shows "int (length (viewLines (logView (foldl (\<lambda>d ls. appendLines qt ls d) d batches)))) \<le>
           maximumBlockCount (logView d) \<and>
         suffix (blockTexts (logView (foldl (\<lambda>d ls. appendLines qt ls d) d batches)))
           (documentOf (concat (map paragraphs (concat batches))))"
proof -
  note f = foldl_appendLines [OF assms(1,2), of qt]
  have "int (length (viewLines (logView (foldl (\<lambda>d ls. appendLines qt ls d) d batches)))) \<le>
           maximumBlockCount (logView d)"
    using viewOK_bound [of "logView (foldl (\<lambda>d ls. appendLines qt ls d) d batches)"] f assms(3)
    by simp
  moreover have "suffix (blockTexts (logView (foldl (\<lambda>d ls. appendLines qt ls d) d batches)))
           (documentOf (concat (map paragraphs (concat batches))))"
    using f by (simp add: retained_def suffix_drop)
  ultimately show ?thesis by simp
qed

section \<open>Properties of the display\<close>

lemma splitLines_nonempty: "list_all (\<lambda>l. l \<noteq> []) (splitLines qt bytes)"
  by (simp add: splitLines_def list_all_iff)

lemma list_all_drop: "list_all P xs \<Longrightarrow> list_all P (drop k xs)"
  by (metis append_take_drop_id list_all_append)

lemma mid_last:
  "(if int (length xs) > n then mid xs (int (length xs) - n) else xs) =
     drop (length xs - nat n) xs"
  by (auto simp: mid_def nat_diff_distrib' intro!: arg_cong [where f = "\<lambda>k. drop k xs"])

lemma appendLine_fields:
  "config (appendLine qt l c d) = config d" "filePos (appendLine qt l c d) = filePos d"
  "watcher (appendLine qt l c d) = watcher d" "process (appendLine qt l c d) = process d"
  "stack (appendLine qt l c d) = stack d"
  by (simp_all add: appendLine_def appendLines_def Let_def)

lemma appendLines_fields:
  "config (appendLines qt ls d) = config d" "filePos (appendLines qt ls d) = filePos d"
  "watcher (appendLines qt ls d) = watcher d" "process (appendLines qt ls d) = process d"
  "stack (appendLines qt ls d) = stack d"
  by (simp_all add: appendLines_def)

lemma startFileTail_readable:
  assumes "fs (filePath (config d)) = Some content"
  shows "startFileTail qt fs d =
     (appendLines qt
        (drop (length (splitLines qt (drop (length content - 100 * 1024) content)) -
               nat (sint (maxLines (config d))))
           (splitLines qt (drop (length content - 100 * 1024) content))) d)
     \<lparr>filePos := int (length content), watcher := Some [filePath (config d)]\<rparr>"
proof -
  have "nat (max 0 (int (length content) - 100 * 1024)) = length content - 100 * 1024"
    by simp
  then show ?thesis using assms
    by (simp add: startFileTail_def Let_def mid_last)
qed

lemma prepared_fields:
  "logView (updateSourceLabel (stopSource d)) = logView d"
  "config (updateSourceLabel (stopSource d)) = config d"
  "filePos (updateSourceLabel (stopSource d)) = filePos d"
  "watcher (updateSourceLabel (stopSource d)) = None"
  "process (updateSourceLabel (stopSource d)) = None"
  by (simp_all add: updateSourceLabel_def stopSource_def)

lemma applySource_prepared:
  "applySource qt fs d =
     (case source (config d) of
        Source_None \<Rightarrow> (prepared d)\<lparr>stack := 0\<rparr>
      | Source_File \<Rightarrow> startFileTail qt fs ((prepared d)\<lparr>stack := 1\<rparr>)
      | Source_Journalctl \<Rightarrow> startJournalctl ((prepared d)\<lparr>stack := 1\<rparr>))"
  by (cases "source (config d)")
    (simp_all add: applySource_def Let_def prepared_def prepared_fields)

lemma prepared_simps:
  "viewOK (logView (prepared d))"
  "viewLines (logView (prepared d)) = []"
  "blockTexts (logView (prepared d)) = [[]]"
  "maximumBlockCount (logView (prepared d)) = sint (maxLines (config d))"
  "config (prepared d) = config d"
  "watcher (prepared d) = None"
  "process (prepared d) = None"
  "filePos (prepared d) = filePos d"
  by (simp_all add: prepared_def viewOK_clear viewLines_clear blockTexts_clear
      maximumBlockCount_clear prepared_fields)

lemma cannotOpen_nonempty: "qs ''Cannot open: '' @ p \<noteq> []"
  by (simp add: qs_def)

lemma rotationMarker_nonempty: "rotationMarker \<noteq> []"
  by (simp add: rotationMarker_def)

lemma journalctlFailed_nonempty: "journalctlFailed \<noteq> []"
  by (simp add: journalctlFailed_def qs_def)

lemma plain_rotationMarker: "paragraphs rotationMarker = [rotationMarker]"
  by (rule paragraphs_plain) (simp add: plain_def rotationMarker_def qs_def isBlockSeparator_def)



lemma startFileTail_view:
  assumes "viewOK (logView d)"
  shows "viewOK (logView (startFileTail qt fs d)) \<and>
         maximumBlockCount (logView (startFileTail qt fs d)) = maximumBlockCount (logView d)"
proof (cases "fs (filePath (config d))")
  case None
  then show ?thesis
    using appendLine_view [OF assms cannotOpen_nonempty, of qt "filePath (config d)" "''#ff5555''"]
    by (simp add: startFileTail_def)
next
  case (Some content)
  show ?thesis
    using appendLines_view [OF assms list_all_drop [OF splitLines_nonempty]]
    by (simp add: startFileTail_readable [of fs d content, OF Some])
qed

lemma applySource_view:
  "viewOK (logView (applySource qt fs d)) \<and>
   maximumBlockCount (logView (applySource qt fs d)) = sint (maxLines (config d))"
proof (cases "source (config d)")
  case Source_None
  then show ?thesis by (simp add: applySource_prepared prepared_simps)
next
  case Source_File
  have "viewOK (logView ((prepared d)\<lparr>stack := 1\<rparr>))" by (simp add: prepared_simps)
  from startFileTail_view [OF this] Source_File show ?thesis
    by (simp add: applySource_prepared prepared_simps)
next
  case Source_Journalctl
  then show ?thesis by (simp add: applySource_prepared prepared_simps startJournalctl_def)
qed

lemma applySource_config: "config (applySource qt fs d) = config d"
  by (cases "source (config d)")
    (simp_all add: applySource_prepared prepared_simps startJournalctl_def startFileTail_def
      Let_def appendLine_fields appendLines_fields split: option.splits)

lemma rotated_view:
  "filePos (rotated qt d) = 0 \<and> blockTexts (logView (rotated qt d)) = [rotationMarker] \<and>
   viewLines (logView (rotated qt d)) = [rotationMarker] \<and>
   viewOK (logView (rotated qt d)) \<and>
   maximumBlockCount (logView (rotated qt d)) = maximumBlockCount (logView d) \<and>
   watcher (rotated qt d) = watcher d"
proof -
  define c where "c = d\<lparr>filePos := 0, logView := clear (logView d)\<rparr>"
  have ok: "viewOK (logView c)" by (simp add: c_def viewOK_cleared)
  have e: "viewLines (logView c) = []" by (simp add: c_def viewLines_clear)
  have m: "maximumBlockCount (logView c) = maximumBlockCount (logView d)"
    by (simp add: c_def clear_def)
  have f: "filePos c = 0" "watcher c = watcher d" by (simp_all add: c_def)
  note a = appendLine_view [OF ok rotationMarker_nonempty, of qt "''#6272a4''"]
  have t: "blockTexts (logView (rotated qt d)) = [rotationMarker]"
    using a by (simp add: rotated_def c_def [symmetric] e plain_rotationMarker retained_single)
  have "viewLines (logView (rotated qt d)) = [rotationMarker]"
    using t textPosition_single [OF rotationMarker_nonempty] by (rule viewLines_of_texts)
  then show ?thesis
    using a t f m by (simp add: rotated_def c_def [symmetric] appendLine_fields)
qed

lemma onFileChanged_rotated:
  assumes "fs path = Some content" "int (length content) < filePos d"
  shows "onFileChanged qt fs path d = onFileChanged qt fs path (rotated qt d)"
proof -
  have "filePos (rotated qt d) = 0" using rotated_view [of qt d] by simp
  then have "\<not> int (length content) < filePos (rotated qt d)" by simp
  then show ?thesis using assms
    by (simp add: onFileChanged_def Let_def)
qed

lemma onFileChanged_rotation:
  assumes "fs path = Some content" "int (length content) < filePos d" "watcher d = Some files"
  shows "\<exists>d'. onFileChanged qt fs path d = Inr d' \<and>
           blockTexts (logView d') =
             retained (maximumBlockCount (logView d))
               (rotationMarker #
                concat (map paragraphs (if content = [] then [] else splitLines qt content))) \<and>
           filePos d' = int (length content)"
proof (cases "content = []")
  case True
  then show ?thesis using assms rotated_view [of qt d]
    by (simp add: onFileChanged_def Let_def retained_single)
next
  case False
  define r where "r = (rotated qt d)\<lparr>filePos := int (length content)\<rparr>"
  have ok: "viewOK (logView r)" and v: "viewLines (logView r) = [rotationMarker]"
    and m: "maximumBlockCount (logView r) = maximumBlockCount (logView d)"
    and w: "watcher r = Some files" and rp: "filePos r = int (length content)"
    using rotated_view [of qt d] assms(3) by (simp_all add: r_def)
  define a where "a = appendLines qt (splitLines qt content) r"
  have av: "blockTexts (logView a) =
      retained (maximumBlockCount (logView d))
        (rotationMarker # concat (map paragraphs (splitLines qt content)))"
    and aw: "watcher a = Some files" and ap: "filePos a = int (length content)"
    using appendLines_view [OF ok splitLines_nonempty, of qt qt content]
    by (simp_all add: a_def v m w rp appendLines_fields documentOf_def)
  have "onFileChanged qt fs path d =
          Inr (if path \<in> set files then a else a\<lparr>watcher := Some (files @ [path])\<rparr>)"
    using assms False rotated_view [of qt d]
    by (simp add: onFileChanged_def Let_def a_def r_def appendLines_fields)
  then show ?thesis using av ap False by auto
qed

lemma onFileChanged_unreadable: "fs path = None \<Longrightarrow> onFileChanged qt fs path d = Inr d"
  by (simp add: onFileChanged_def)

lemma onFileChanged_unchanged_size:
  "fs path = Some content \<Longrightarrow> filePos d = int (length content) \<Longrightarrow>
     onFileChanged qt fs path d = Inr d"
  by (simp add: onFileChanged_def Let_def)

lemma onFileChanged_grown:
  assumes "fs path = Some content" "0 \<le> filePos d" "filePos d < int (length content)"
      and "watcher d = Some files" "viewOK (logView d)"
  shows "\<exists>d'. onFileChanged qt fs path d = Inr d' \<and>
           blockTexts (logView d') =
             retained (maximumBlockCount (logView d))
               (documentOf (viewLines (logView d) @
                  concat (map paragraphs (splitLines qt (drop (nat (filePos d)) content))))) \<and>
           filePos d' = int (length content) \<and> watcher d' \<noteq> None \<and>
           viewOK (logView d') \<and>
           maximumBlockCount (logView d') = maximumBlockCount (logView d) \<and>
           config d' = config d"
proof -
  define newData where "newData = drop (nat (filePos d)) content"
  define r where "r = d\<lparr>filePos := filePos d + int (length newData)\<rparr>"
  define a where "a = appendLines qt (splitLines qt newData) r"
  have p: "filePos d + int (length newData) = int (length content)"
    using assms(2,3) by (simp add: newData_def)
  have ok: "viewOK (logView r)" using assms(5) by (simp add: r_def)
  have av: "blockTexts (logView a) =
      retained (maximumBlockCount (logView d))
        (documentOf (viewLines (logView d) @ concat (map paragraphs (splitLines qt newData))))"
    and aw: "watcher a = Some files" and ap: "filePos a = int (length content)"
    and ao: "viewOK (logView a)"
    and am: "maximumBlockCount (logView a) = maximumBlockCount (logView d)"
    and ac: "config a = config d"
    using appendLines_view [OF ok splitLines_nonempty, of qt qt newData] assms(4) p
    by (simp_all add: a_def appendLines_fields r_def)
  have "onFileChanged qt fs path d =
          Inr (if path \<in> set files then a else a\<lparr>watcher := Some (files @ [path])\<rparr>)"
    using assms(1,3,4)
    by (simp add: onFileChanged_def Let_def a_def r_def newData_def appendLines_fields)
  then show ?thesis using av ap aw ao am ac by (auto simp: newData_def)
qed

lemma concat_paragraphs_plain:
  "list_all plain ls \<Longrightarrow> concat (map paragraphs ls) = ls"
  by (induction ls) (simp_all add: paragraphs_plain)

lemma textPosition_nonempty_lines:
  "ls \<noteq> [] \<Longrightarrow> list_all (\<lambda>l. l \<noteq> []) ls \<Longrightarrow> 0 < textPosition ls"
  by (cases ls) (auto simp: textPosition_def)

lemma applySource_readable:
  assumes "source (config d) = Source_File"
      and "fs (filePath (config d)) = Some content"
  shows "let lines = splitLines qt (drop (length content - 100 * 1024) content);
             seed = drop (length lines - nat (sint (maxLines (config d)))) lines;
             d' = applySource qt fs d
         in blockTexts (logView d') =
              retained (sint (maxLines (config d))) (documentOf (concat (map paragraphs seed))) \<and>
            (list_all plain seed \<longrightarrow> viewLines (logView d') = seed) \<and>
            int (length (viewLines (logView d'))) \<le> max 0 (sint (maxLines (config d))) \<and>
            filePos d' = int (length content) \<and>
            watcher d' = Some [filePath (config d)]"
proof -
  define n where "n = sint (maxLines (config d))"
  define lines where "lines = splitLines qt (drop (length content - 100 * 1024) content)"
  define seed where "seed = drop (length lines - nat n) lines"
  define d' where "d' = applySource qt fs d"
  define p where "p = (prepared d)\<lparr>stack := 1\<rparr>"
  have ok: "viewOK (logView p)" and emp: "viewLines (logView p) = []"
    and m: "maximumBlockCount (logView p) = n"
    and c: "config p = config d"
    by (simp_all add: p_def prepared_simps n_def)
  have ne: "list_all (\<lambda>l. l \<noteq> []) seed"
    unfolding seed_def lines_def by (rule list_all_drop [OF splitLines_nonempty])
  have d': "d' = (appendLines qt seed p)
      \<lparr>filePos := int (length content), watcher := Some [filePath (config d)]\<rparr>"
  proof -
    have "d' = startFileTail qt fs p"
      using assms(1) by (simp add: applySource_prepared p_def d'_def)
    moreover have "fs (filePath (config p)) = Some content"
      using assms(2) by (simp add: c)
    ultimately show ?thesis
      using startFileTail_readable [of fs p content qt]
      by (simp add: c seed_def lines_def n_def)
  qed
  have len: "int (length seed) \<le> max 0 n"
    by (simp add: seed_def)
  have t: "blockTexts (logView d') = retained n (documentOf (concat (map paragraphs seed)))"
    using appendLines_view [OF ok ne, of qt] by (simp add: d' emp m)
  have v: "viewOK (logView d')" "maximumBlockCount (logView d') = n"
    using applySource_view [of qt fs d] by (simp_all add: d'_def n_def)
  have pl: "viewLines (logView d') = seed" if "list_all plain seed"
  proof (cases "seed = []")
    case True
    then have "blockTexts (logView d') = [[]]" using t by (simp add: documentOf_def retained_def)
    then show ?thesis using True by (simp add: viewLines_blockTexts textPosition_def)
  next
    case False
    have "concat (map paragraphs seed) = seed" using that by (rule concat_paragraphs_plain)
    then have "blockTexts (logView d') = retained n seed"
      using t False by (simp add: documentOf_def)
    also have "\<dots> = seed" using len by (intro retained_within) linarith
    finally show ?thesis
      using textPosition_nonempty_lines [OF False ne] by (rule viewLines_of_texts)
  qed
  have b: "int (length (viewLines (logView d'))) \<le> max 0 n"
  proof (cases "0 < n")
    case True
    then show ?thesis using viewOK_bound [of "logView d'"] v by simp
  next
    case False
    then have "seed = []" by (simp add: seed_def)
    then have "blockTexts (logView d') = [[]]" using t by (simp add: documentOf_def retained_def)
    then show ?thesis by (simp add: viewLines_blockTexts textPosition_def)
  qed
  have "blockTexts (logView d') =
              retained n (documentOf (concat (map paragraphs seed))) \<and>
            (list_all plain seed \<longrightarrow> viewLines (logView d') = seed) \<and>
            int (length (viewLines (logView d'))) \<le> max 0 n \<and>
            filePos d' = int (length content) \<and>
            watcher d' = Some [filePath (config d)]"
    using t pl b d' by simp
  then show ?thesis
    unfolding Let_def seed_def lines_def d'_def n_def .
qed



lemma applySource_one_mebibyte:
  assumes "source (config d) = Source_File"
      and "fs (filePath (config d)) = Some content"
      and "length content = 1024 * 1024"
      and "sint (maxLines (config d)) = 10"
  shows "length (viewLines (logView (applySource qt fs d))) \<le> 10 \<and>
         blockTexts (logView (applySource qt fs d)) =
           retained 10 (documentOf (concat (map paragraphs
             (drop (length (splitLines qt (drop (924 * 1024) content)) - 10)
                (splitLines qt (drop (924 * 1024) content))))))"
  using applySource_readable [of d fs content qt, OF assms(1,2)] assms(3,4)
  by (simp add: Let_def)

text \<open>
  The handlers of the journalctl process: \<open>onJournalOutput\<close> appends the complete lines
  that the process has ready, and only those; both handlers keep the view in order.
\<close>

lemma onJournalOutput_view:
  assumes "process d = Some p" "viewOK (logView d)"
  shows "\<exists>d'. onJournalOutput qt ready d = Inr d' \<and>
           blockTexts (logView d') =
             retained (maximumBlockCount (logView d))
               (documentOf (viewLines (logView d) @
                  concat (map paragraphs
                    (filter (\<lambda>line. line \<noteq> []) (map (\<lambda>raw. trimmed (fromUtf8 qt raw)) ready))))) \<and>
           viewOK (logView d') \<and>
           maximumBlockCount (logView d') = maximumBlockCount (logView d)"
proof -
  have "list_all (\<lambda>l. l \<noteq> [])
      (filter (\<lambda>line. line \<noteq> []) (map (\<lambda>raw. trimmed (fromUtf8 qt raw)) ready))"
    by (simp add: list_all_iff)
  from appendLines_view [OF assms(2) this, of qt] show ?thesis
    using assms(1) by (simp add: onJournalOutput_def)
qed

lemma onErrorOccurred_view:
  assumes "viewOK (logView d)"
  shows "viewOK (logView (onErrorOccurred qt d)) \<and>
         maximumBlockCount (logView (onErrorOccurred qt d)) = maximumBlockCount (logView d)"
  using appendLine_view [OF assms journalctlFailed_nonempty, of qt "''#ff5555''"]
  by (simp add: onErrorOccurred_def)

lemma loadConfig_configOf:
  "loadConfig qt fs obj d = applySource qt fs (d\<lparr>config := configOf obj\<rparr>)"
proof -
  have t: "(if toString (obj (qs ''sourceType'')) = qs ''file'' then Source_File
         else if toString (obj (qs ''sourceType'')) = qs ''journalctl'' then Source_Journalctl
         else Source_None) = source (configOf obj)"
    by (auto simp: configOf_def toString_def qs_def split: option.splits QJsonValue.splits)
  have u: "toString (obj (qs ''filePath'')) = filePath (configOf obj)"
    "toString (obj (qs ''journalUnit'')) = journalUnit (configOf obj)"
    "toInt (obj (qs ''maxLines'')) 500 = maxLines (configOf obj)"
    by (simp_all add: configOf_def toString_def split: option.splits QJsonValue.splits)
  have e: "\<lparr>source = source (configOf obj), filePath = filePath (configOf obj),
      journalUnit = journalUnit (configOf obj), maxLines = maxLines (configOf obj)\<rparr> =
      configOf obj"
    by simp
  show ?thesis
    unfolding loadConfig_def Let_def t u e ..
qed

section \<open>Properties of the tail\<close>

lemma splitLines_examples:
  "splitLines asciiQt (''a'' @ [CHR 0x0A]) = [qs ''a'']"
  "splitLines asciiQt (''b'' @ [CHR 0x0A] @ ''c'' @ [CHR 0x0A]) = [qs ''b'', qs ''c'']"
  "splitLines asciiQt (''start'' @ [CHR 0x0A]) = [qs ''start'']"
  "splitLines asciiQt ''hello wor'' = [qs ''hello wor'']"
  "splitLines asciiQt (''ld'' @ [CHR 0x0A]) = [qs ''ld'']"
  "splitLines asciiQt (''start'' @ [CHR 0x0A] @ ''hello world'' @ [CHR 0x0A]) =
     [qs ''start'', qs ''hello world'']"
  by (simp_all add: splitLines_def asciiQt_def trimmed_def isSpace_def qs_def)

lemma plain_examples:
  "plain (qs ''a'')" "plain (qs ''b'')" "plain (qs ''c'')" "plain (qs ''start'')"
  "plain (qs ''hello wor'')" "plain (qs ''ld'')" "plain (qs ''hello world'')"
  by (simp_all add: plain_def qs_def isBlockSeparator_def)

text \<open>
  C1. The tail buffer is the document of the view, and its capacity is the block limit
  that \<open>applySource\<close> sets from \<open>maxLines\<close>. For a positive capacity the view holds at
  most that many lines after every append, the last ones in their order
  (\<open>appendLines_bounded\<close>, \<open>foldl_appendLines_bounded\<close>). Qt takes a limit of zero or less
  as no limit, and \<open>loadConfig\<close> applies whatever number the persisted object holds (see
  C9). The persisted object here has \<open>maxLines\<close> 0 and names a file that holds the line
  "a": the view starts empty. When the file has grown by the lines "b" and "c", the
  notification appends both: the view holds two lines though the capacity is 0.
\<close>

theorem tail_buffer_unbounded:
  "\<exists>d'. onFileChanged asciiQt
          (onlyFile exampleLog (''a'' @ [CHR 0x0A] @ ''b'' @ [CHR 0x0A] @ ''c'' @ [CHR 0x0A]))
          exampleLog
          (loadConfig asciiQt (onlyFile exampleLog (''a'' @ [CHR 0x0A]))
             [qs ''sourceType'' \<mapsto> JString (qs ''file''),
              qs ''filePath'' \<mapsto> JString exampleLog,
              qs ''maxLines'' \<mapsto> JDouble 0]
             newDisplay) = Inr d' \<and>
        sint (maxLines (config d')) = 0 \<and>
        maximumBlockCount (logView d') = 0 \<and>
        viewLines (logView d') = [qs ''b'', qs ''c'']"
proof -
  define obj where "obj = [qs ''sourceType'' \<mapsto> JString (qs ''file''),
              qs ''filePath'' \<mapsto> JString exampleLog,
              qs ''maxLines'' \<mapsto> JDouble 0]"
  define d where "d = newDisplay\<lparr>config := configOf obj\<rparr>"
  define c0 where "c0 = ''a'' @ [CHR 0x0A]"
  define c1 where "c1 = ''a'' @ [CHR 0x0A] @ ''b'' @ [CHR 0x0A] @ ''c'' @ [CHR 0x0A]"
  define d0 where "d0 = applySource asciiQt (onlyFile exampleLog c0) d"
  have c: "source (config d) = Source_File" "filePath (config d) = exampleLog"
    "sint (maxLines (config d)) = 0"
    by (simp_all add: d_def configOf_def obj_def qs_def toInt_def exampleLog_def)
  have f: "onlyFile exampleLog c0 (filePath (config d)) = Some c0"
    by (simp add: c(2) onlyFile_def)
  have l: "length c0 = 2" "splitLines asciiQt c0 = [qs ''a'']"
    unfolding c0_def by (simp, rule splitLines_examples)
  have v0: "viewLines (logView d0) = []" and p0: "filePos d0 = 2"
    and w0: "watcher d0 = Some [exampleLog]"
    using applySource_readable [of d "onlyFile exampleLog c0" c0 asciiQt, OF c(1) f]
    by (simp_all add: Let_def l c d0_def)
  have ok0: "viewOK (logView d0)" and m0: "maximumBlockCount (logView d0) = 0"
    using applySource_view [of asciiQt "onlyFile exampleLog c0" d] by (simp_all add: d0_def c)
  have g0: "config d0 = config d" by (simp add: d0_def applySource_config)
  have f1: "onlyFile exampleLog c1 exampleLog = Some c1" by (simp add: onlyFile_def)
  have dr: "drop (nat (filePos d0)) c1 = ''b'' @ [CHR 0x0A] @ ''c'' @ [CHR 0x0A]"
    by (simp add: p0 c1_def)
  obtain d' where r: "onFileChanged asciiQt (onlyFile exampleLog c1) exampleLog d0 = Inr d'"
    and b: "blockTexts (logView d') =
      retained (maximumBlockCount (logView d0))
        (documentOf (viewLines (logView d0) @
           concat (map paragraphs (splitLines asciiQt (drop (nat (filePos d0)) c1)))))"
    and m: "maximumBlockCount (logView d') = maximumBlockCount (logView d0)"
    and g: "config d' = config d0"
    using onFileChanged_grown [of "onlyFile exampleLog c1" exampleLog c1 d0 "[exampleLog]" asciiQt,
        OF f1 _ _ w0 ok0]
    by (auto simp: p0 c1_def)
  have "blockTexts (logView d') = [qs ''b'', qs ''c'']"
    by (simp only: b dr splitLines_examples v0 m0)
      (simp add: paragraphs_plain plain_examples retained_def documentOf_def)
  then have "viewLines (logView d') = [qs ''b'', qs ''c'']"
    by (rule viewLines_of_texts) (simp add: textPosition_def qs_def)
  then have "onFileChanged asciiQt (onlyFile exampleLog c1) exampleLog d0 = Inr d' \<and>
        sint (maxLines (config d')) = 0 \<and>
        maximumBlockCount (logView d') = 0 \<and>
        viewLines (logView d') = [qs ''b'', qs ''c'']"
    using r m m0 g g0 c(3) by simp
  then show ?thesis
    unfolding d0_def d_def c0_def c1_def obj_def loadConfig_configOf by blast
qed

text \<open>
  C5. Opening a readable file seeds the view from the end of the file: the bytes read
  are those from \<open>size - 100 KiB\<close> on (all of them for a smaller file), they are split
  at the line feeds into trimmed lines that are not empty, and the last \<open>maxLines\<close> of
  these lines are inserted. The document holds their blocks (a line with a carriage
  return or a paragraph separator inside makes more than one block) as far as the block
  limit keeps them; when the lines are plain the view shows exactly these lines. In
  every case the view holds at most \<open>maxLines\<close> lines, the cursor is the size of the
  file, and the file is watched. For a file of 1 MiB and \<open>maxLines = 10\<close> these are at
  most 10 lines of the last 100 KiB (\<open>applySource_one_mebibyte\<close>).
\<close>

theorem seed_from_tail:
  assumes "source (config d) = Source_File"
      and "fs (filePath (config d)) = Some content"
  shows "let lines = splitLines qt (drop (length content - 100 * 1024) content);
             seed = drop (length lines - nat (sint (maxLines (config d)))) lines;
             d' = applySource qt fs d
         in blockTexts (logView d') =
              retained (sint (maxLines (config d))) (documentOf (concat (map paragraphs seed))) \<and>
            (list_all plain seed \<longrightarrow> viewLines (logView d') = seed) \<and>
            int (length (viewLines (logView d'))) \<le> max 0 (sint (maxLines (config d))) \<and>
            filePos d' = int (length content) \<and>
            watcher d' = Some [filePath (config d)]"
  using applySource_readable [of d fs content qt, OF assms] .

lemma splitLines_trim:
  "splitLines asciiQt (''  a '' @ [CHR 0x0D, CHR 0x0A, CHR 0x0A] @ '' b'' @ [CHR 0x0A] @ '' c '' @ [CHR 0x0A]) =
     [qs ''a'', qs ''b'', qs ''c'']"
  by (simp add: splitLines_def asciiQt_def trimmed_def isSpace_def qs_def)

lemma splitLines_inner_cr:
  "splitLines asciiQt (''x'' @ [CHR 0x0A] @ ''a'' @ [CHR 0x0D] @ ''b'' @ [CHR 0x0A]) =
     [qs ''x'', qs (''a'' @ [CHR 0x0D] @ ''b'')]"
  by (simp add: splitLines_def asciiQt_def trimmed_def isSpace_def qs_def)

lemma paragraphs_inner_cr:
  "paragraphs (qs (''a'' @ [CHR 0x0D] @ ''b'')) = [qs ''a'', qs ''b'']"
  "paragraphs (qs ''x'') = [qs ''x'']"
  by (simp_all add: paragraphs_def qs_def isBlockSeparator_def)

theorem seed_from_tail_witness:
  "viewLines (logView (applySource asciiQt
      (onlyFile exampleLog
         (''  a '' @ [CHR 0x0D, CHR 0x0A, CHR 0x0A] @ '' b'' @ [CHR 0x0A] @ '' c '' @ [CHR 0x0A]))
      (newDisplay\<lparr>config := fileConfig 2\<rparr>))) = [qs ''b'', qs ''c''] \<and>
   filePos (applySource asciiQt
      (onlyFile exampleLog
         (''  a '' @ [CHR 0x0D, CHR 0x0A, CHR 0x0A] @ '' b'' @ [CHR 0x0A] @ '' c '' @ [CHR 0x0A]))
      (newDisplay\<lparr>config := fileConfig 2\<rparr>)) = 14 \<and>
   blockTexts (logView (applySource asciiQt
      (onlyFile exampleLog (''x'' @ [CHR 0x0A] @ ''a'' @ [CHR 0x0D] @ ''b'' @ [CHR 0x0A]))
      (newDisplay\<lparr>config := fileConfig 2\<rparr>))) = [qs ''a'', qs ''b'']"
proof -
  define content where
    "content = ''  a '' @ [CHR 0x0D, CHR 0x0A, CHR 0x0A] @ '' b'' @ [CHR 0x0A] @ '' c '' @ [CHR 0x0A]"
  define content2 where
    "content2 = ''x'' @ [CHR 0x0A] @ ''a'' @ [CHR 0x0D] @ ''b'' @ [CHR 0x0A]"
  define d where "d = newDisplay\<lparr>config := fileConfig 2\<rparr>"
  have s: "source (config d) = Source_File" by (simp add: d_def fileConfig_def)
  have f: "onlyFile exampleLog content (filePath (config d)) = Some content"
    "onlyFile exampleLog content2 (filePath (config d)) = Some content2"
    by (simp_all add: d_def fileConfig_def onlyFile_def)
  have l: "length content = 14" "length content2 = 6" by (simp_all add: content_def content2_def)
  have sl: "splitLines asciiQt content = [qs ''a'', qs ''b'', qs ''c'']"
    unfolding content_def by (rule splitLines_trim)
  have sl2: "splitLines asciiQt content2 = [qs ''x'', qs (''a'' @ [CHR 0x0D] @ ''b'')]"
    unfolding content2_def by (rule splitLines_inner_cr)
  have n: "sint (maxLines (config d)) = 2" by (simp add: d_def fileConfig_def)
  have p: "plain (qs ''b'')" "plain (qs ''c'')"
    by (simp_all add: plain_def qs_def isBlockSeparator_def)
  have "viewLines (logView (applySource asciiQt (onlyFile exampleLog content) d)) =
          [qs ''b'', qs ''c''] \<and>
        filePos (applySource asciiQt (onlyFile exampleLog content) d) = 14"
    using seed_from_tail [of d "onlyFile exampleLog content" content asciiQt, OF s f(1)]
    by (simp add: Let_def l sl n p)
  moreover have "blockTexts (logView (applySource asciiQt (onlyFile exampleLog content2) d)) =
      [qs ''a'', qs ''b'']"
    using seed_from_tail [of d "onlyFile exampleLog content2" content2 asciiQt, OF s f(2)]
    by (simp add: Let_def l sl2 n documentOf_def retained_def paragraphs_def
        isBlockSeparator_def qs_def)
  ultimately show ?thesis unfolding content_def content2_def d_def by simp
qed

text \<open>
  C3. A change notification for a watched file that is now shorter than the cursor: the
  branch taken first (\<open>rotated\<close>) sets the cursor to 0 and leaves the document with the
  rotation marker as its only block, whatever it held before; the notification then goes
  on as it would from that state. It reads the file from its first byte, so in the end
  the marker has been appended once, before the lines of the file, the document holds
  what its block limit keeps of the marker followed by the blocks of these lines, and
  the cursor is the size of the file. (Nothing is read from a file of size 0.)
\<close>

theorem rotation_resets:
  assumes "fs path = Some content"
      and "int (length content) < filePos d"
      and "watcher d = Some files"
  shows "filePos (rotated qt d) = 0 \<and>
         blockTexts (logView (rotated qt d)) = [rotationMarker] \<and>
         onFileChanged qt fs path d = onFileChanged qt fs path (rotated qt d) \<and>
         (\<exists>d'. onFileChanged qt fs path d = Inr d' \<and>
            blockTexts (logView d') =
              retained (maximumBlockCount (logView d))
                (rotationMarker #
                 concat (map paragraphs (if content = [] then [] else splitLines qt content))) \<and>
            filePos d' = int (length content))"
  using rotated_view [of qt d] onFileChanged_rotated [of fs path content d qt, OF assms(1,2)]
    onFileChanged_rotation [of fs path content d files qt, OF assms]
  by simp

lemma splitLines_new: "splitLines asciiQt ('' new '' @ [CHR 0x0A]) = [qs ''new'']"
  by (simp add: splitLines_def asciiQt_def trimmed_def isSpace_def qs_def)

lemma paragraphs_qs_examples:
  "paragraphs (qs ''new'') = [qs ''new'']" "paragraphs (qs ''old'') = [qs ''old'']"
  by (simp_all add: paragraphs_def qs_def isBlockSeparator_def)

theorem rotation_resets_witness:
  "blockTexts (logView (appendLines asciiQt [qs ''old''] newDisplay)) = [qs ''old''] \<and>
   onlyFile exampleLog ('' new '' @ [CHR 0x0A]) exampleLog = Some ('' new '' @ [CHR 0x0A]) \<and>
   int (length ('' new '' @ [CHR 0x0A])) <
     filePos ((appendLines asciiQt [qs ''old''] newDisplay)
                \<lparr>watcher := Some [exampleLog], filePos := 1000\<rparr>) \<and>
   (\<exists>d'. onFileChanged asciiQt (onlyFile exampleLog ('' new '' @ [CHR 0x0A])) exampleLog
            ((appendLines asciiQt [qs ''old''] newDisplay)
                \<lparr>watcher := Some [exampleLog], filePos := 1000\<rparr>) = Inr d' \<and>
         blockTexts (logView d') = [rotationMarker, qs ''new''] \<and> filePos d' = 6)"
proof -
  define old where "old = appendLines asciiQt [qs ''old''] newDisplay"
  define d where "d = old\<lparr>watcher := Some [exampleLog], filePos := 1000\<rparr>"
  define content where "content = '' new '' @ [CHR 0x0A]"
  have o: "blockTexts (logView old) = [qs ''old'']"
    using appendLines_view [of newDisplay "[qs ''old'']" asciiQt]
    by (simp add: old_def viewOK_newDisplay documentOf_def retained_def qs_def paragraphs_def
        isBlockSeparator_def)
  have f: "onlyFile exampleLog content exampleLog = Some content" by (simp add: onlyFile_def)
  have l: "int (length content) < filePos d" by (simp add: d_def content_def)
  have w: "watcher d = Some [exampleLog]" by (simp add: d_def)
  have m: "maximumBlockCount (logView d) = 500"
    by (simp add: d_def old_def maximumBlockCount_appendLines viewOK_newDisplay)
  have c: "content \<noteq> []" "int (length content) = 6" by (simp_all add: content_def)
  have s: "splitLines asciiQt content = [qs ''new'']"
    unfolding content_def by (rule splitLines_new)
  have "\<exists>d'. onFileChanged asciiQt (onlyFile exampleLog content) exampleLog d = Inr d' \<and>
         blockTexts (logView d') = [rotationMarker, qs ''new''] \<and> filePos d' = 6"
    using rotation_resets [of "onlyFile exampleLog content" exampleLog content d "[exampleLog]" asciiQt,
        OF f l w, THEN conjunct2, THEN conjunct2, THEN conjunct2]
    by (simp add: m c s retained_def paragraphs_qs_examples)
  with o f l show ?thesis unfolding d_def old_def content_def by simp
qed

text \<open>
  C6, as the specification states it, fails: a notification on which the file cannot be
  opened emits no line. Here a display that tails a file and shows its line "new" gets
  a notification while the file cannot be opened: the display is left as it was, still
  showing that one line.
\<close>

theorem unreadable_change_is_silent:
  "onFileChanged asciiQt noFiles exampleLog
     (applySource asciiQt (onlyFile exampleLog (''new'' @ [CHR 0x0A]))
        (newDisplay\<lparr>config := fileConfig 500\<rparr>)) =
   Inr (applySource asciiQt (onlyFile exampleLog (''new'' @ [CHR 0x0A]))
        (newDisplay\<lparr>config := fileConfig 500\<rparr>)) \<and>
   viewLines (logView
     (applySource asciiQt (onlyFile exampleLog (''new'' @ [CHR 0x0A]))
        (newDisplay\<lparr>config := fileConfig 500\<rparr>))) =
   [qs ''new'']"
proof -
  define content where "content = ''new'' @ [CHR 0x0A]"
  define d where "d = newDisplay\<lparr>config := fileConfig 500\<rparr>"
  have s: "source (config d) = Source_File" by (simp add: d_def fileConfig_def)
  have f: "onlyFile exampleLog content (filePath (config d)) = Some content"
    by (simp add: d_def fileConfig_def onlyFile_def)
  have sl: "splitLines asciiQt content = [qs ''new'']"
    by (simp add: content_def splitLines_def asciiQt_def trimmed_def isSpace_def qs_def)
  have n: "nat (sint (maxLines (config d))) = 500" by (simp add: d_def fileConfig_def)
  have l: "length content = 4" by (simp add: content_def)
  have p: "plain (qs ''new'')" by (simp add: plain_def qs_def isBlockSeparator_def)
  have "viewLines (logView (applySource asciiQt (onlyFile exampleLog content) d)) = [qs ''new'']"
    using applySource_readable [of d "onlyFile exampleLog content" content asciiQt, OF s f]
    by (simp add: Let_def l sl n p)
  moreover have "onFileChanged asciiQt noFiles exampleLog
        (applySource asciiQt (onlyFile exampleLog content) d) =
      Inr (applySource asciiQt (onlyFile exampleLog content) d)"
    by (rule onFileChanged_unreadable) (simp add: noFiles_def)
  ultimately show ?thesis unfolding d_def content_def by simp
qed

text \<open>
  C6, amended. A change notification on which the file cannot be opened for reading
  returns at once and changes nothing: no line is emitted, and the view, the cursor and
  the watcher are as before, so that the next notification is handled from the same
  state.
\<close>

theorem unreadable_change_ignored:
  "fs path = None \<Longrightarrow> onFileChanged qt fs path d = Inr d"
  by (rule onFileChanged_unreadable)

theorem unreadable_change_ignored_witness:
  "noFiles exampleLog = None \<and>
   onFileChanged asciiQt noFiles exampleLog newDisplay = Inr newDisplay"
proof -
  have n: "noFiles exampleLog = None" by (simp add: noFiles_def)
  show ?thesis
    using n unreadable_change_ignored [of noFiles exampleLog asciiQt newDisplay, OF n] by simp
qed




text \<open>
  C2. Nothing is carried over from one read of the file to the next. A display tails a
  file that holds the line "start". When the first notification arrives the writer has
  got as far as "hello wor", and when the second arrives it has written the rest of the
  line, "ld" and the line feed. The view then holds the three lines "start", "hello
  wor" and "ld"; the bytes of the file split at once, and a display that opens the
  file now, give the two lines "start" and "hello world". The journalctl path is not
  concerned: it takes complete lines only (\<open>onJournalOutput_view\<close>).
\<close>

theorem torn_line_across_reads:
  "(\<exists>d1 d2.
      onFileChanged asciiQt (onlyFile exampleLog (''start'' @ [CHR 0x0A] @ ''hello wor''))
        exampleLog
        (applySource asciiQt (onlyFile exampleLog (''start'' @ [CHR 0x0A]))
           (newDisplay\<lparr>config := fileConfig 500\<rparr>)) = Inr d1 \<and>
      onFileChanged asciiQt
        (onlyFile exampleLog (''start'' @ [CHR 0x0A] @ ''hello world'' @ [CHR 0x0A]))
        exampleLog d1 = Inr d2 \<and>
      viewLines (logView d2) = [qs ''start'', qs ''hello wor'', qs ''ld'']) \<and>
   splitLines asciiQt (''start'' @ [CHR 0x0A] @ ''hello world'' @ [CHR 0x0A]) =
     [qs ''start'', qs ''hello world''] \<and>
   viewLines (logView
     (applySource asciiQt
        (onlyFile exampleLog (''start'' @ [CHR 0x0A] @ ''hello world'' @ [CHR 0x0A]))
        (newDisplay\<lparr>config := fileConfig 500\<rparr>))) =
     [qs ''start'', qs ''hello world'']"
proof -
  define d where "d = newDisplay\<lparr>config := fileConfig 500\<rparr>"
  define c0 where "c0 = ''start'' @ [CHR 0x0A]"
  define c1 where "c1 = ''start'' @ [CHR 0x0A] @ ''hello wor''"
  define c2 where "c2 = ''start'' @ [CHR 0x0A] @ ''hello world'' @ [CHR 0x0A]"
  define d0 where "d0 = applySource asciiQt (onlyFile exampleLog c0) d"
  have c: "source (config d) = Source_File" "filePath (config d) = exampleLog"
    "sint (maxLines (config d)) = 500"
    by (simp_all add: d_def fileConfig_def)
  have f: "onlyFile exampleLog x (filePath (config d)) = Some x"
    "onlyFile exampleLog x exampleLog = Some x" for x
    by (simp_all add: c(2) onlyFile_def)
  have l: "length c0 = 6" "splitLines asciiQt c0 = [qs ''start'']"
    "length c2 = 18" "splitLines asciiQt c2 = [qs ''start'', qs ''hello world'']"
    unfolding c0_def c2_def by (simp, rule splitLines_examples, simp, rule splitLines_examples)
  have v0: "viewLines (logView d0) = [qs ''start'']" and p0: "filePos d0 = 6"
    and w0: "watcher d0 = Some [exampleLog]"
    using applySource_readable [of d "onlyFile exampleLog c0" c0 asciiQt, OF c(1) f(1)]
    by (simp_all add: Let_def l c d0_def plain_examples)
  have ok0: "viewOK (logView d0)" and m0: "maximumBlockCount (logView d0) = 500"
    using applySource_view [of asciiQt "onlyFile exampleLog c0" d] by (simp_all add: d0_def c)
  have whole: "viewLines (logView (applySource asciiQt (onlyFile exampleLog c2) d)) =
      [qs ''start'', qs ''hello world'']"
    using applySource_readable [of d "onlyFile exampleLog c2" c2 asciiQt, OF c(1) f(1)]
    by (simp add: Let_def l c plain_examples)
  have dr1: "drop (nat (filePos d0)) c1 = ''hello wor''"
    by (simp add: p0 c1_def)
  obtain d1 where r1: "onFileChanged asciiQt (onlyFile exampleLog c1) exampleLog d0 = Inr d1"
    and b1: "blockTexts (logView d1) =
      retained (maximumBlockCount (logView d0))
        (documentOf (viewLines (logView d0) @
           concat (map paragraphs (splitLines asciiQt (drop (nat (filePos d0)) c1)))))"
    and p1: "filePos d1 = int (length c1)" and w1: "watcher d1 \<noteq> None"
    and ok1: "viewOK (logView d1)"
    and m1: "maximumBlockCount (logView d1) = maximumBlockCount (logView d0)"
    using onFileChanged_grown [of "onlyFile exampleLog c1" exampleLog c1 d0 "[exampleLog]" asciiQt,
        OF f(2) _ _ w0 ok0]
    by (auto simp: p0 c1_def)
  have "blockTexts (logView d1) = [qs ''start'', qs ''hello wor'']"
    by (simp only: b1 dr1 splitLines_examples v0 m0)
      (simp add: paragraphs_plain plain_examples retained_def documentOf_def)
  then have v1: "viewLines (logView d1) = [qs ''start'', qs ''hello wor'']"
    by (rule viewLines_of_texts) (simp add: textPosition_def qs_def)
  have q1: "filePos d1 = 15" by (simp add: p1 c1_def)
  obtain files where w1': "watcher d1 = Some files" using w1 by auto
  have dr2: "drop (nat (filePos d1)) c2 = ''ld'' @ [CHR 0x0A]"
    by (simp add: q1 c2_def)
  obtain d2 where r2: "onFileChanged asciiQt (onlyFile exampleLog c2) exampleLog d1 = Inr d2"
    and b2: "blockTexts (logView d2) =
      retained (maximumBlockCount (logView d1))
        (documentOf (viewLines (logView d1) @
           concat (map paragraphs (splitLines asciiQt (drop (nat (filePos d1)) c2)))))"
    using onFileChanged_grown [of "onlyFile exampleLog c2" exampleLog c2 d1 files asciiQt,
        OF f(2) _ _ w1' ok1]
    by (auto simp: q1 c2_def)
  have "blockTexts (logView d2) = [qs ''start'', qs ''hello wor'', qs ''ld'']"
    by (simp only: b2 dr2 splitLines_examples v1 m1 m0)
      (simp add: paragraphs_plain plain_examples retained_def documentOf_def)
  then have v2: "viewLines (logView d2) = [qs ''start'', qs ''hello wor'', qs ''ld'']"
    by (rule viewLines_of_texts) (simp add: textPosition_def qs_def)
  have "\<exists>d1 d2. onFileChanged asciiQt (onlyFile exampleLog c1) exampleLog d0 = Inr d1 \<and>
      onFileChanged asciiQt (onlyFile exampleLog c2) exampleLog d1 = Inr d2 \<and>
      viewLines (logView d2) = [qs ''start'', qs ''hello wor'', qs ''ld'']"
    using r1 r2 v2 by blast
  then show ?thesis
    using whole l(4)
    unfolding d0_def d_def c0_def c1_def c2_def by blast
qed

section \<open>Properties of the configuration\<close>

lemma toInt_whole:
  "toInt (Some (JDouble (of_int k))) dflt =
     (if - (2 ^ 31) \<le> k \<and> k < 2 ^ 31 then word_of_int k else dflt)"
  by (simp add: toInt_def)

lemma toInt_of_int: "toInt (Some (JDouble (of_int (sint m)))) dflt = m"
proof -
  have "- (2 ^ 31) \<le> sint m" "sint m < 2 ^ 31"
    using sint_ge [of m] sint_lt [of m] by simp_all
  then have "toInt (Some (JDouble (of_int (sint m)))) dflt = word_of_int (sint m)"
    by (simp only: toInt_whole if_True simp_thms)
  also have "word_of_int (sint m) = m" by simp
  finally show ?thesis .
qed

lemma saveConfig_lookup:
  "saveConfig d (qs ''sourceType'') = Some (case source (config d) of
           Source_File \<Rightarrow> JString (qs ''file'')
         | Source_Journalctl \<Rightarrow> JString (qs ''journalctl'')
         | Source_None \<Rightarrow> JString [])"
  "saveConfig d (qs ''filePath'') = Some (JString (filePath (config d)))"
  "saveConfig d (qs ''journalUnit'') = Some (JString (journalUnit (config d)))"
  "saveConfig d (qs ''maxLines'') = Some (JDouble (of_int (sint (maxLines (config d)))))"
  by (simp_all add: saveConfig_def qs_def)

lemma loadConfig_config: "config (loadConfig qt fs obj d) = configOf obj"
  by (simp add: loadConfig_configOf applySource_config)


lemma loadConfig_maxLines:
  "maxLines (config (loadConfig qt fs obj d)) = toInt (obj (qs ''maxLines'')) 500"
  by (simp add: loadConfig_config configOf_def)

lemma loadConfig_maxLines_absent:
  "obj (qs ''maxLines'') = None \<Longrightarrow>
     sint (maxLines (config (loadConfig qt fs obj d))) = 500"
  by (simp add: loadConfig_maxLines toInt_def)

lemma openConfig_maxLines_range:
  "50 \<le> sint (maxLines (config (openConfig qt fs Accepted dlg d))) \<and>
   sint (maxLines (config (openConfig qt fs Accepted dlg d))) \<le> 5000"
proof -
  have b: "50 \<le> spinBoxValue v" "spinBoxValue v \<le> 5000" for v
    by (simp_all add: spinBoxValue_def)
  have "sint (word_of_int (spinBoxValue v) :: 32 word) = spinBoxValue v" for v
    using b [of v] by (simp add: sint_sbintrunc' signed_take_bit_int_eq_self)
  then show ?thesis
    using b by (simp add: openConfig_def applySource_config)
qed

text \<open>
  C8. Loading what \<open>saveConfig\<close> has written restores the configuration: for every
  configuration of a display, the unconfigured one included, the source type, the file
  path, the journal unit and \<open>maxLines\<close> of the display that loads the saved object are
  those of the display that saved it.
\<close>

theorem loadConfig_saveConfig_round_trip:
  "config (loadConfig qt fs (saveConfig d) d') = config d"
proof -
  have ne: "qs ''file'' \<noteq> qs ''journalctl''" "[] \<noteq> qs ''file''" "[] \<noteq> qs ''journalctl''"
    by (simp_all add: qs_def)
  define type where "type = toString (saveConfig d (qs ''sourceType''))"
  have s: "(if type = qs ''file'' then Source_File
            else if type = qs ''journalctl'' then Source_Journalctl else Source_None) =
           source (config d)"
    using ne by (cases "source (config d)") (simp_all add: type_def saveConfig_lookup toString_def)
  have p: "toString (saveConfig d (qs ''filePath'')) = filePath (config d)"
    by (simp add: saveConfig_lookup toString_def)
  have u: "toString (saveConfig d (qs ''journalUnit'')) = journalUnit (config d)"
    by (simp add: saveConfig_lookup toString_def)
  have m: "toInt (saveConfig d (qs ''maxLines'')) 500 = maxLines (config d)"
    by (simp only: saveConfig_lookup toInt_of_int)
  have "config (loadConfig qt fs (saveConfig d) d') =
        \<lparr>source = (if type = qs ''file'' then Source_File
            else if type = qs ''journalctl'' then Source_Journalctl else Source_None),
         filePath = toString (saveConfig d (qs ''filePath'')),
         journalUnit = toString (saveConfig d (qs ''journalUnit'')),
         maxLines = toInt (saveConfig d (qs ''maxLines'')) 500\<rparr>"
    by (simp add: loadConfig_def Let_def applySource_config type_def)
  also have "\<dots> = config d"
    by (simp only: s p u m) simp
  finally show ?thesis .
qed

theorem loadConfig_saveConfig_round_trip_witness:
  "config (loadConfig asciiQt (\<lambda>p. None) (saveConfig newDisplay) newDisplay) = defaultConfig \<and>
   source defaultConfig = Source_None"
  using loadConfig_saveConfig_round_trip [of asciiQt "\<lambda>p. None" newDisplay newDisplay]
  by (simp add: newDisplay_def defaultConfig_def)

text \<open>
  C9. The dialog bounds \<open>maxLines\<close> to the range 50 to 5000 (\<open>openConfig_maxLines_range\<close>),
  and a persisted object without the field gives 500 (\<open>loadConfig_maxLines_absent\<close>);
  but \<open>loadConfig\<close> takes whatever whole number the field holds: the persisted object
  whose \<open>maxLines\<close> is 7 gives the display the capacity 7.
\<close>

theorem loadConfig_maxLines_unbounded:
  "sint (maxLines (config
     (loadConfig asciiQt (\<lambda>p. None) [qs ''maxLines'' \<mapsto> JDouble 7] newDisplay))) = 7"
  by (simp add: loadConfig_maxLines toInt_def)

section \<open>Properties of the plugin\<close>








end
